theory Spec2Isabelle
  imports Main "HOL-Library.Word" "HOL-Library.Signed_Division"
begin

section \<open>The printer byte sink of Hatari (printer.c)\<close>

text \<open>
  The module keeps its state in file-level statics. They become the fields of one record,
  under the names the C file gives them, and every function of the file becomes a function
  from the state to the new state.

  \<^item> \<open>PrinterBuffer\<close> is the array of \<open>PRINTER_BUFFER_SIZE\<close> unsigned chars, as a map from
    the index to the byte stored there. A store \<open>PrinterBuffer[nPrinterBufferChars++]\<close>
    with the index outside the array is the error \<open>BufferOverrun\<close>, so the two functions
    that store, and their caller, return \<open>error + _\<close>.
  \<^item> \<open>nPrinterBufferChars\<close> is a \<open>size_t\<close>. It only grows by the store above, which fails
    from 2048 on, so it never comes near the wrap-around of \<open>size_t\<close> and is a \<open>nat\<close>.
  \<^item> \<open>nPrinterBufferCharsOnLine\<close> is a C \<open>int\<close>: a 32-bit word, read as a signed number by
    \<open>sint\<close>. The increment \<open>nPrinterBufferCharsOnLine++\<close> is the addition of the word, which
    wraps from \<open>INT_MAX\<close> to \<open>INT_MIN\<close> as the compiled code does, and \<open>%\<close> is C's remainder
    \<open>smod\<close>, which takes the sign of the counter. So after \<open>2^31\<close> characters on a line
    without a carriage return the counter is negative, and a tab then asks for up to 15
    spaces.
  \<^item> \<open>nIdleCount\<close> is a C \<open>int\<close> that starts at zero, is only incremented or set to zero and
    stays below 200: a count, modelled as \<open>nat\<close>.
  \<^item> The file behind \<open>PrinterFileHandle\<close> is seen through the calls made on it:
    \<open>fwrites\<close> is the list of the byte blocks handed to \<open>fwrite\<close>, oldest first. Whether
    \<open>fopen\<close> succeeds is a parameter of the call that opens, and so is the configuration
    flag \<open>ConfigureParams.Printer.bEnablePrinting\<close>. A short \<open>fwrite\<close> only prints a
    diagnostic on stderr and changes no state, so it has no branch of its own.
\<close>

type_synonym byte = "8 word"

definition PRINTER_TAB_SETTING :: nat where
  [simp]: "PRINTER_TAB_SETTING = 8"

definition PRINTER_IDLE_CLOSE :: nat where
  [simp]: "PRINTER_IDLE_CLOSE = 4 * 50"

definition PRINTER_BUFFER_SIZE :: nat where
  [simp]: "PRINTER_BUFFER_SIZE = 2048"

datatype error = BufferOverrun

record printer =
  PrinterBuffer :: "nat \<Rightarrow> byte"
  nPrinterBufferChars :: nat
  nPrinterBufferCharsOnLine :: "32 word"
  bConnectedPrinter :: bool
  bPrinterFile :: bool
  nIdleCount :: nat
  fwrites :: "byte list list"

text \<open>The statics at program start: zero-initialised, both flags \<open>FALSE\<close>, nothing written.\<close>

definition Printer_initial :: printer where
  "Printer_initial =
     \<lparr>PrinterBuffer = (\<lambda>_. 0), nPrinterBufferChars = 0, nPrinterBufferCharsOnLine = 0,
      bConnectedPrinter = False, bPrinterFile = False, nIdleCount = 0, fwrites = []\<rparr>"

text \<open>The bytes \<open>fwrite\<close> is handed: the first \<open>nPrinterBufferChars\<close> bytes of the array.\<close>

definition buffered :: "printer \<Rightarrow> byte list" where
  "buffered s = map (PrinterBuffer s) [0..<nPrinterBufferChars s]"

subsection \<open>File handling\<close>

definition Printer_OpenFile :: "bool \<Rightarrow> printer \<Rightarrow> bool \<times> printer" where
  "Printer_OpenFile fopen_ok s =
     (let s1 = s\<lparr>bPrinterFile := True\<rparr>;
          s2 = (if \<not> fopen_ok then s1\<lparr>bPrinterFile := False\<rparr> else s1)
      in (bPrinterFile s2, s2))"

definition Printer_CloseFile :: "printer \<Rightarrow> printer" where
  "Printer_CloseFile s = (if bPrinterFile s then s\<lparr>bPrinterFile := False\<rparr> else s)"

definition Printer_ResetInternalBuffer :: "printer \<Rightarrow> printer" where
  "Printer_ResetInternalBuffer s = s\<lparr>nPrinterBufferChars := 0\<rparr>"

definition Printer_ResetCharsOnLine :: "printer \<Rightarrow> printer" where
  "Printer_ResetCharsOnLine s = s\<lparr>nPrinterBufferCharsOnLine := 0\<rparr>"

definition Printer_EmptyFile :: "printer \<Rightarrow> printer" where
  "Printer_EmptyFile s =
     (if bPrinterFile s
      then Printer_ResetInternalBuffer (s\<lparr>fwrites := fwrites s @ [buffered s]\<rparr>)
      else s)"

definition Printer_EmptyInternalBuffer :: "printer \<Rightarrow> bool \<times> printer" where
  "Printer_EmptyInternalBuffer s =
     (if nPrinterBufferChars s > 0
      then (True, if bPrinterFile s then Printer_EmptyFile s else s)
      else (False, s))"

definition Printer_CloseAllConnections :: "printer \<Rightarrow> printer" where
  "Printer_CloseAllConnections s =
     (let s1 = snd (Printer_EmptyInternalBuffer s);
          s2 = Printer_CloseFile s1
      in s2\<lparr>bConnectedPrinter := False\<rparr>)"

subsection \<open>Filtering and buffering\<close>

definition Printer_ValidByte :: "byte \<Rightarrow> bool" where
  "Printer_ValidByte Byte =
     (if Byte = 0x0d \<or> Byte = 0x0a then True
      else if Byte \<ge> 32 \<and> Byte < 127 then True
      else if Byte = 9 then True
      else False)"

text \<open>The statement \<open>PrinterBuffer[nPrinterBufferChars++] = Byte\<close>.\<close>

definition PrinterBuffer_store :: "byte \<Rightarrow> printer \<Rightarrow> error + printer" where
  "PrinterBuffer_store Byte s =
     (if nPrinterBufferChars s < PRINTER_BUFFER_SIZE
      then Inr (s\<lparr>PrinterBuffer := (PrinterBuffer s)(nPrinterBufferChars s := Byte),
                  nPrinterBufferChars := nPrinterBufferChars s + 1\<rparr>)
      else Inl BufferOverrun)"

definition Printer_AddByteToInternalBuffer :: "byte \<Rightarrow> printer \<Rightarrow> error + printer" where
  "Printer_AddByteToInternalBuffer Byte s =
     (let s1 = (if nPrinterBufferChars s = PRINTER_BUFFER_SIZE
                then snd (Printer_EmptyInternalBuffer s) else s)
      in case PrinterBuffer_store Byte s1 of
           Inl e \<Rightarrow> Inl e
         | Inr s2 \<Rightarrow>
             Inr (if \<not> (Byte = 0xd \<or> Byte = 0xa)
                  then s2\<lparr>nPrinterBufferCharsOnLine := nPrinterBufferCharsOnLine s2 + 1\<rparr>
                  else s2))"

text \<open>
  The expression \<open>PRINTER_TAB_SETTING-(nPrinterBufferCharsOnLine%PRINTER_TAB_SETTING)\<close> of
  \<open>Printer_AddTabToInternalBuffer\<close>, on C \<open>int\<close>s.
\<close>

definition tab_spaces :: "32 word \<Rightarrow> int" where
  "tab_spaces column = int PRINTER_TAB_SETTING - (sint column smod int PRINTER_TAB_SETTING)"

text \<open>
  The loop \<open>for (i = 0; i < NumSpaces; i++)\<close> of \<open>Printer_AddTabToInternalBuffer\<close>; \<open>i\<close> and
  \<open>NumSpaces\<close> are C \<open>int\<close>s between 0 and 15.
\<close>

function tab_loop :: "int \<Rightarrow> int \<Rightarrow> printer \<Rightarrow> error + printer" where
  "tab_loop i NumSpaces s =
     (if i < NumSpaces
      then (case PrinterBuffer_store 0x20 s of
              Inl e \<Rightarrow> Inl e
            | Inr s1 \<Rightarrow>
                tab_loop (i + 1) NumSpaces
                  (s1\<lparr>nPrinterBufferCharsOnLine := nPrinterBufferCharsOnLine s1 + 1\<rparr>))
      else Inr s)"
  by pat_completeness auto

termination
  by (relation "measure (\<lambda>(i, NumSpaces, s). nat (NumSpaces - i))") auto

declare tab_loop.simps [simp del]

definition Printer_AddTabToInternalBuffer :: "printer \<Rightarrow> error + printer" where
  "Printer_AddTabToInternalBuffer s =
     (let s1 = (if nPrinterBufferChars s \<ge> PRINTER_BUFFER_SIZE - PRINTER_TAB_SETTING
                then snd (Printer_EmptyInternalBuffer s) else s);
          NumSpaces = tab_spaces (nPrinterBufferCharsOnLine s1)
      in tab_loop 0 NumSpaces s1)"

subsection \<open>The entry points\<close>

definition Printer_TransferByteTo ::
  "bool \<Rightarrow> bool \<Rightarrow> byte \<Rightarrow> printer \<Rightarrow> error + (bool \<times> printer)" where
  "Printer_TransferByteTo bEnablePrinting fopen_ok Byte s =
     (if \<not> bEnablePrinting then Inr (False, s)
      else
        let s1 = (if \<not> bConnectedPrinter s
                  then (case Printer_OpenFile fopen_ok s of
                          (r, s') \<Rightarrow>
                            Printer_ResetCharsOnLine
                              (Printer_ResetInternalBuffer (s'\<lparr>bConnectedPrinter := r\<rparr>)))
                  else s)
        in if bConnectedPrinter s1
           then (if Printer_ValidByte Byte
                 then (case (if Byte = 9 then Printer_AddTabToInternalBuffer s1
                             else Printer_AddByteToInternalBuffer Byte s1) of
                         Inl e \<Rightarrow> Inl e
                       | Inr s2 \<Rightarrow>
                           Inr (True, if Byte = 0xd
                                      then s2\<lparr>nPrinterBufferCharsOnLine := 0\<rparr> else s2))
                 else Inr (True, s1))
           else Inr (False, s1))"

definition Printer_CheckIdleStatus :: "printer \<Rightarrow> printer" where
  "Printer_CheckIdleStatus s =
     (case Printer_EmptyInternalBuffer s of
        (r, s1) \<Rightarrow>
          if r then s1\<lparr>nIdleCount := 0\<rparr>
          else
            let s2 = s1\<lparr>nIdleCount := nIdleCount s1 + 1\<rparr>
            in if nIdleCount s2 \<ge> PRINTER_IDLE_CLOSE
               then (Printer_CloseAllConnections s2)\<lparr>nIdleCount := 0\<rparr>
               else s2)"

subsection \<open>Sequences of calls\<close>

text \<open>
  The calls the rest of the emulator makes on the module, and a run of them from a state.
  A run stops at the first error. The \<open>reset()\<close> of the specification is
  \<open>ResetInternalBuffer\<close> followed by \<open>ResetCharsOnLine\<close>, as in lines 271 and 272 of the file.
\<close>

datatype op =
    TransferByteTo bool bool byte
  | CheckIdleStatus
  | EmptyInternalBuffer
  | CloseAllConnections
  | ResetInternalBuffer
  | ResetCharsOnLine

fun step :: "op \<Rightarrow> printer \<Rightarrow> error + printer" where
  "step (TransferByteTo bEnablePrinting fopen_ok Byte) s =
     (case Printer_TransferByteTo bEnablePrinting fopen_ok Byte s of
        Inl e \<Rightarrow> Inl e
      | Inr (r, s') \<Rightarrow> Inr s')"
| "step CheckIdleStatus s = Inr (Printer_CheckIdleStatus s)"
| "step EmptyInternalBuffer s = Inr (snd (Printer_EmptyInternalBuffer s))"
| "step CloseAllConnections s = Inr (Printer_CloseAllConnections s)"
| "step ResetInternalBuffer s = Inr (Printer_ResetInternalBuffer s)"
| "step ResetCharsOnLine s = Inr (Printer_ResetCharsOnLine s)"

fun run :: "printer \<Rightarrow> op list \<Rightarrow> error + printer" where
  "run s [] = Inr s"
| "run s (x # xs) = (case step x s of Inl e \<Rightarrow> Inl e | Inr s' \<Rightarrow> run s' xs)"

text \<open>
  The data-model invariants of the specification, on the statics: the buffer length is
  within the array, the file is open exactly while connected, nothing is buffered while
  disconnected, and the idle counter is below the threshold.
\<close>

definition consistent :: "printer \<Rightarrow> bool" where
  "consistent s \<longleftrightarrow>
     nPrinterBufferChars s \<le> PRINTER_BUFFER_SIZE \<and>
     bPrinterFile s = bConnectedPrinter s \<and>
     (bConnectedPrinter s \<or> nPrinterBufferChars s = 0) \<and>
     nIdleCount s < PRINTER_IDLE_CLOSE"

text \<open>The printable characters, \<open>0x20\<close> to \<open>0x7E\<close>.\<close>

definition printable :: "byte \<Rightarrow> bool" where
  "printable Byte \<longleftrightarrow> Byte \<ge> 32 \<and> Byte < 127"

section \<open>The arithmetic of the column counter\<close>

lemma tab_spaces_range: "1 \<le> tab_spaces c \<and> tab_spaces c \<le> 15"
proof -
  have "\<bar>sint c smod 8\<bar> < 8"
    by (simp add: smod_int_alt_def abs_mult abs_sgn_eq)
  then show ?thesis by (simp add: tab_spaces_def) linarith
qed

lemma tab_spaces_nonneg:
  "0 \<le> sint c \<Longrightarrow> tab_spaces c = 8 - sint c mod 8"
  by (cases "sint c = 0") (simp_all add: tab_spaces_def smod_int_alt_def)

lemma tab_spaces_nonneg_range:
  "0 \<le> sint c \<Longrightarrow> 1 \<le> tab_spaces c \<and> tab_spaces c \<le> 8"
  by (simp add: tab_spaces_nonneg)

lemma tab_spaces_0 [simp]: "tab_spaces 0 = 8"
  by (simp add: tab_spaces_def)

lemma sint_add_small:
  fixes c :: "32 word"
  assumes "0 \<le> sint c" and "sint c + int k < 2 ^ 31"
  shows "sint (c + of_nat k) = sint c + int k"
proof -
  have k: "sint (of_nat k :: 32 word) = int k"
    using assms by (simp add: signed_of_nat signed_take_bit_int_eq_self)
  have "sint (c + of_nat k) = signed_take_bit 31 (sint c + sint (of_nat k :: 32 word))"
    by (simp add: sint_word_ariths)
  also have "\<dots> = sint c + int k"
    using assms unfolding k by (simp add: signed_take_bit_int_eq_self)
  finally show ?thesis .
qed

section \<open>What the single functions do\<close>

lemma EmptyInternalBuffer_open:
  "bPrinterFile s \<Longrightarrow> 0 < nPrinterBufferChars s \<Longrightarrow>
   Printer_EmptyInternalBuffer s = (True, s\<lparr>fwrites := fwrites s @ [buffered s], nPrinterBufferChars := 0\<rparr>)"
  by (simp add: Printer_EmptyInternalBuffer_def Printer_EmptyFile_def Printer_ResetInternalBuffer_def)

lemma EmptyInternalBuffer_empty:
  "nPrinterBufferChars s = 0 \<Longrightarrow> Printer_EmptyInternalBuffer s = (False, s)"
  by (simp add: Printer_EmptyInternalBuffer_def)

lemma buffered_store:
  "buffered (s\<lparr>PrinterBuffer := (PrinterBuffer s)(nPrinterBufferChars s := b),
               nPrinterBufferChars := nPrinterBufferChars s + 1\<rparr>) = buffered s @ [b]"
  by (simp add: buffered_def)

lemma buffered_empty: "nPrinterBufferChars s = 0 \<Longrightarrow> buffered s = []"
  by (simp add: buffered_def)

lemma store_ok:
  "nPrinterBufferChars s < PRINTER_BUFFER_SIZE \<Longrightarrow>
   PrinterBuffer_store b s =
     Inr (s\<lparr>PrinterBuffer := (PrinterBuffer s)(nPrinterBufferChars s := b),
            nPrinterBufferChars := nPrinterBufferChars s + 1\<rparr>)"
  by (simp add: PrinterBuffer_store_def)

lemma store_full:
  "\<not> nPrinterBufferChars s < PRINTER_BUFFER_SIZE \<Longrightarrow> PrinterBuffer_store b s = Inl BufferOverrun"
  by (simp add: PrinterBuffer_store_def)

lemma tab_loop_spaces:
  "nPrinterBufferChars s + nat (NumSpaces - i) \<le> PRINTER_BUFFER_SIZE \<Longrightarrow>
   \<exists>s'. tab_loop i NumSpaces s = Inr s' \<and>
        buffered s' = buffered s @ replicate (nat (NumSpaces - i)) 0x20 \<and>
        nPrinterBufferChars s' = nPrinterBufferChars s + nat (NumSpaces - i) \<and>
        nPrinterBufferCharsOnLine s' =
          nPrinterBufferCharsOnLine s + of_nat (nat (NumSpaces - i)) \<and>
        bConnectedPrinter s' = bConnectedPrinter s \<and> bPrinterFile s' = bPrinterFile s \<and>
        nIdleCount s' = nIdleCount s \<and> fwrites s' = fwrites s"
proof (induction i NumSpaces s rule: tab_loop.induct)
  case (1 i NumSpaces s)
  show ?case
  proof (cases "i < NumSpaces")
    case False
    then show ?thesis by (simp add: tab_loop.simps [of i NumSpaces s])
  next
    case True
    let ?s1 = "s\<lparr>PrinterBuffer := (PrinterBuffer s)(nPrinterBufferChars s := 0x20),
                  nPrinterBufferChars := nPrinterBufferChars s + 1\<rparr>"
    let ?s2 = "?s1\<lparr>nPrinterBufferCharsOnLine := nPrinterBufferCharsOnLine ?s1 + 1\<rparr>"
    from True have k: "nat (NumSpaces - i) = Suc (nat (NumSpaces - (i + 1)))" by simp
    from "1.prems" have lt: "nPrinterBufferChars s < PRINTER_BUFFER_SIZE"
      unfolding k by simp
    then have st: "PrinterBuffer_store 0x20 s = Inr ?s1" by (rule store_ok)
    have b2: "buffered ?s2 = buffered s @ [0x20]"
      by (simp add: buffered_def)
    from "1.prems"
    have "nPrinterBufferChars ?s2 + nat (NumSpaces - (i + 1)) \<le> PRINTER_BUFFER_SIZE"
      unfolding k by simp
    from "1.IH" [OF True st this] obtain s' where
      s': "tab_loop (i + 1) NumSpaces ?s2 = Inr s'"
        "buffered s' = buffered ?s2 @ replicate (nat (NumSpaces - (i + 1))) 0x20"
        "nPrinterBufferChars s' = nPrinterBufferChars ?s2 + nat (NumSpaces - (i + 1))"
        "nPrinterBufferCharsOnLine s' =
           nPrinterBufferCharsOnLine ?s2 + of_nat (nat (NumSpaces - (i + 1)))"
        "bConnectedPrinter s' = bConnectedPrinter ?s2" "bPrinterFile s' = bPrinterFile ?s2"
        "nIdleCount s' = nIdleCount ?s2" "fwrites s' = fwrites ?s2"
      by blast
    have "tab_loop i NumSpaces s = Inr s'"
      using True st s'(1) by (simp add: tab_loop.simps [of i NumSpaces s])
    moreover have "buffered s' = buffered s @ replicate (nat (NumSpaces - i)) 0x20"
      unfolding k using s'(2) b2 by simp
    moreover have "nPrinterBufferChars s' = nPrinterBufferChars s + nat (NumSpaces - i)"
      unfolding k using s'(3) by simp
    moreover have "nPrinterBufferCharsOnLine s' =
        nPrinterBufferCharsOnLine s + of_nat (nat (NumSpaces - i))"
      unfolding k using s'(4) by simp
    ultimately show ?thesis using s'(5-) by simp
  qed
qed

lemma tab_loop_overrun:
  "nPrinterBufferChars s \<le> PRINTER_BUFFER_SIZE \<Longrightarrow>
   PRINTER_BUFFER_SIZE < nPrinterBufferChars s + nat (NumSpaces - i) \<Longrightarrow>
   tab_loop i NumSpaces s = Inl BufferOverrun"
proof (induction i NumSpaces s rule: tab_loop.induct)
  case (1 i NumSpaces s)
  from "1.prems" have lt: "i < NumSpaces" by (cases "i < NumSpaces") simp_all
  then have k: "nat (NumSpaces - i) = Suc (nat (NumSpaces - (i + 1)))" by simp
  show ?case
  proof (cases "nPrinterBufferChars s < PRINTER_BUFFER_SIZE")
    case False
    then show ?thesis
      using lt by (simp add: tab_loop.simps [of i NumSpaces s] store_full)
  next
    case True
    let ?s1 = "s\<lparr>PrinterBuffer := (PrinterBuffer s)(nPrinterBufferChars s := 0x20),
                  nPrinterBufferChars := nPrinterBufferChars s + 1\<rparr>"
    let ?s2 = "?s1\<lparr>nPrinterBufferCharsOnLine := nPrinterBufferCharsOnLine ?s1 + 1\<rparr>"
    have st: "PrinterBuffer_store 0x20 s = Inr ?s1" using True by (rule store_ok)
    have "nPrinterBufferChars ?s2 \<le> PRINTER_BUFFER_SIZE" using True by simp
    moreover have "PRINTER_BUFFER_SIZE < nPrinterBufferChars ?s2 + nat (NumSpaces - (i + 1))"
      using "1.prems"(2) unfolding k by simp
    ultimately have "tab_loop (i + 1) NumSpaces ?s2 = Inl BufferOverrun"
      by (rule "1.IH" [OF lt st])
    then show ?thesis
      using lt st by (simp add: tab_loop.simps [of i NumSpaces s])
  qed
qed

lemma AddByte_room:
  assumes "nPrinterBufferChars s < PRINTER_BUFFER_SIZE"
  shows "\<exists>s'. Printer_AddByteToInternalBuffer b s = Inr s' \<and>
           buffered s' = buffered s @ [b] \<and>
           nPrinterBufferChars s' = nPrinterBufferChars s + 1 \<and>
           nPrinterBufferCharsOnLine s' =
             (if b = 0xd \<or> b = 0xa then nPrinterBufferCharsOnLine s
              else nPrinterBufferCharsOnLine s + 1) \<and>
           bConnectedPrinter s' = bConnectedPrinter s \<and> bPrinterFile s' = bPrinterFile s \<and>
           nIdleCount s' = nIdleCount s \<and> fwrites s' = fwrites s"
  using assms
  by (simp add: Printer_AddByteToInternalBuffer_def PrinterBuffer_store_def buffered_def)

lemma AddByte_full:
  assumes "nPrinterBufferChars s = PRINTER_BUFFER_SIZE" and "bPrinterFile s"
  shows "\<exists>s'. Printer_AddByteToInternalBuffer b s = Inr s' \<and>
           buffered s' = [b] \<and>
           nPrinterBufferChars s' = 1 \<and>
           nPrinterBufferCharsOnLine s' =
             (if b = 0xd \<or> b = 0xa then nPrinterBufferCharsOnLine s
              else nPrinterBufferCharsOnLine s + 1) \<and>
           bConnectedPrinter s' = bConnectedPrinter s \<and> bPrinterFile s' = bPrinterFile s \<and>
           nIdleCount s' = nIdleCount s \<and> fwrites s' = fwrites s @ [buffered s]"
  using assms
  by (simp add: Printer_AddByteToInternalBuffer_def PrinterBuffer_store_def buffered_def
      EmptyInternalBuffer_open)

lemma AddTab_room:
  assumes "nPrinterBufferChars s < PRINTER_BUFFER_SIZE - PRINTER_TAB_SETTING"
    and "nPrinterBufferChars s + nat (tab_spaces (nPrinterBufferCharsOnLine s))
           \<le> PRINTER_BUFFER_SIZE"
  shows "\<exists>s'. Printer_AddTabToInternalBuffer s = Inr s' \<and>
           buffered s' =
             buffered s @ replicate (nat (tab_spaces (nPrinterBufferCharsOnLine s))) 0x20 \<and>
           nPrinterBufferChars s' =
             nPrinterBufferChars s + nat (tab_spaces (nPrinterBufferCharsOnLine s)) \<and>
           nPrinterBufferCharsOnLine s' =
             nPrinterBufferCharsOnLine s
               + of_nat (nat (tab_spaces (nPrinterBufferCharsOnLine s))) \<and>
           bConnectedPrinter s' = bConnectedPrinter s \<and> bPrinterFile s' = bPrinterFile s \<and>
           nIdleCount s' = nIdleCount s \<and> fwrites s' = fwrites s"
proof -
  have "nPrinterBufferChars s + nat (tab_spaces (nPrinterBufferCharsOnLine s) - 0)
          \<le> PRINTER_BUFFER_SIZE"
    using assms(2) by simp
  from tab_loop_spaces [OF this] show ?thesis
    using assms(1) by (simp add: Printer_AddTabToInternalBuffer_def)
qed

lemma AddTab_overrun:
  assumes "nPrinterBufferChars s < PRINTER_BUFFER_SIZE - PRINTER_TAB_SETTING"
    and "PRINTER_BUFFER_SIZE
           < nPrinterBufferChars s + nat (tab_spaces (nPrinterBufferCharsOnLine s))"
  shows "Printer_AddTabToInternalBuffer s = Inl BufferOverrun"
proof -
  have "nPrinterBufferChars s \<le> PRINTER_BUFFER_SIZE" using assms(1) by simp
  moreover have "PRINTER_BUFFER_SIZE
      < nPrinterBufferChars s + nat (tab_spaces (nPrinterBufferCharsOnLine s) - 0)"
    using assms(2) by simp
  ultimately have "tab_loop 0 (tab_spaces (nPrinterBufferCharsOnLine s)) s = Inl BufferOverrun"
    by (rule tab_loop_overrun)
  then show ?thesis
    using assms(1) by (simp add: Printer_AddTabToInternalBuffer_def)
qed

lemma AddTab_flush:
  assumes "PRINTER_BUFFER_SIZE - PRINTER_TAB_SETTING \<le> nPrinterBufferChars s" and "bPrinterFile s"
  shows "\<exists>s'. Printer_AddTabToInternalBuffer s = Inr s' \<and>
           buffered s' = replicate (nat (tab_spaces (nPrinterBufferCharsOnLine s))) 0x20 \<and>
           nPrinterBufferChars s' = nat (tab_spaces (nPrinterBufferCharsOnLine s)) \<and>
           nPrinterBufferCharsOnLine s' =
             nPrinterBufferCharsOnLine s
               + of_nat (nat (tab_spaces (nPrinterBufferCharsOnLine s))) \<and>
           bConnectedPrinter s' = bConnectedPrinter s \<and> bPrinterFile s' = bPrinterFile s \<and>
           nIdleCount s' = nIdleCount s \<and> fwrites s' = fwrites s @ [buffered s]"
proof -
  let ?s1 = "s\<lparr>fwrites := fwrites s @ [buffered s], nPrinterBufferChars := 0\<rparr>"
  have e: "Printer_EmptyInternalBuffer s = (True, ?s1)"
    using assms by (simp add: EmptyInternalBuffer_open)
  have "tab_spaces (nPrinterBufferCharsOnLine s) \<le> 15"
    using tab_spaces_range [of "nPrinterBufferCharsOnLine s"] by simp
  then have "nPrinterBufferChars ?s1 + nat (tab_spaces (nPrinterBufferCharsOnLine ?s1) - 0)
          \<le> PRINTER_BUFFER_SIZE"
    by simp
  from tab_loop_spaces [OF this] show ?thesis
    using assms e by (simp add: Printer_AddTabToInternalBuffer_def buffered_empty)
qed

lemma Transfer_tab:
  "bConnectedPrinter s \<Longrightarrow>
   Printer_TransferByteTo True fopen_ok 9 s =
     (case Printer_AddTabToInternalBuffer s of Inl e \<Rightarrow> Inl e | Inr s2 \<Rightarrow> Inr (True, s2))"
  by (simp add: Printer_TransferByteTo_def Printer_ValidByte_def split: sum.splits)

lemma initial_fields [simp]:
  "nPrinterBufferChars Printer_initial = 0" "nPrinterBufferCharsOnLine Printer_initial = 0"
  "\<not> bConnectedPrinter Printer_initial" "\<not> bPrinterFile Printer_initial"
  "nIdleCount Printer_initial = 0" "fwrites Printer_initial = []"
  by (simp_all add: Printer_initial_def)

lemma buffered_zeros:
  "PrinterBuffer s = PrinterBuffer Printer_initial \<Longrightarrow>
   buffered s = replicate (nPrinterBufferChars s) 0"
  by (simp add: buffered_def Printer_initial_def map_replicate_const)

lemma Transfer_byte:
  "bConnectedPrinter s \<Longrightarrow> Printer_ValidByte b \<Longrightarrow> b \<noteq> 9 \<Longrightarrow>
   Printer_TransferByteTo True fopen_ok b s =
     (case Printer_AddByteToInternalBuffer b s of
        Inl e \<Rightarrow> Inl e
      | Inr s2 \<Rightarrow> Inr (True, if b = 0xd then s2\<lparr>nPrinterBufferCharsOnLine := 0\<rparr> else s2))"
  by (simp add: Printer_TransferByteTo_def)

lemma Transfer_invalid:
  "bConnectedPrinter s \<Longrightarrow> \<not> Printer_ValidByte b \<Longrightarrow>
   Printer_TransferByteTo True fopen_ok b s = Inr (True, s)"
  by (simp add: Printer_TransferByteTo_def)

lemma buffered_line [simp]: "buffered (s\<lparr>nPrinterBufferCharsOnLine := c\<rparr>) = buffered s"
  by (simp add: buffered_def)

lemma ValidByte_iff:
  "Printer_ValidByte b \<longleftrightarrow> b = 0x0d \<or> b = 0x0a \<or> b = 0x09 \<or> (0x20 \<le> b \<and> b \<le> 0x7e)"
  by (auto simp: Printer_ValidByte_def word_le_nat_alt word_less_nat_alt)

lemma printable_not_control:
  "(0x20::byte) \<le> b \<Longrightarrow> b \<noteq> 0x0d \<and> b \<noteq> 0x0a \<and> b \<noteq> 0x09"
  by (auto simp: word_le_nat_alt)

lemma CloseAllConnections_eq:
  "Printer_CloseAllConnections s =
     (if 0 < nPrinterBufferChars s \<and> bPrinterFile s
      then s\<lparr>fwrites := fwrites s @ [buffered s], nPrinterBufferChars := 0,
              bPrinterFile := False, bConnectedPrinter := False\<rparr>
      else s\<lparr>bPrinterFile := False, bConnectedPrinter := False\<rparr>)"
  by (simp add: Printer_CloseAllConnections_def Printer_EmptyInternalBuffer_def
      Printer_EmptyFile_def Printer_ResetInternalBuffer_def Printer_CloseFile_def)

lemma OpenFile_eq: "Printer_OpenFile fopen_ok s = (fopen_ok, s\<lparr>bPrinterFile := fopen_ok\<rparr>)"
  by (cases fopen_ok) (simp_all add: Printer_OpenFile_def Let_def)

lemma Transfer_disabled: "Printer_TransferByteTo False fopen_ok b s = Inr (False, s)"
  by (simp add: Printer_TransferByteTo_def)

lemma Transfer_open_failed:
  "\<not> bConnectedPrinter s \<Longrightarrow>
   Printer_TransferByteTo True False b s =
     Inr (False, s\<lparr>bPrinterFile := False, bConnectedPrinter := False,
                   nPrinterBufferChars := 0, nPrinterBufferCharsOnLine := 0\<rparr>)"
  by (simp add: Printer_TransferByteTo_def OpenFile_eq
      Printer_ResetInternalBuffer_def Printer_ResetCharsOnLine_def)

lemma Transfer_open_ok:
  "\<not> bConnectedPrinter s \<Longrightarrow>
   Printer_TransferByteTo True True b s =
     Printer_TransferByteTo True True b
       (s\<lparr>bPrinterFile := True, bConnectedPrinter := True,
          nPrinterBufferChars := 0, nPrinterBufferCharsOnLine := 0\<rparr>)"
  by (simp add: Printer_TransferByteTo_def OpenFile_eq
      Printer_ResetInternalBuffer_def Printer_ResetCharsOnLine_def)

section \<open>What a call leaves alone\<close>

lemma store_frame:
  "PrinterBuffer_store b s = Inr s' \<Longrightarrow>
   nIdleCount s' = nIdleCount s \<and> bConnectedPrinter s' = bConnectedPrinter s \<and>
   bPrinterFile s' = bPrinterFile s \<and> nPrinterBufferChars s' \<le> PRINTER_BUFFER_SIZE \<and>
   nPrinterBufferCharsOnLine s' = nPrinterBufferCharsOnLine s"
  by (auto simp: PrinterBuffer_store_def split: if_splits)

lemma EmptyInternalBuffer_frame:
  "nIdleCount (snd (Printer_EmptyInternalBuffer s)) = nIdleCount s"
  "bConnectedPrinter (snd (Printer_EmptyInternalBuffer s)) = bConnectedPrinter s"
  "bPrinterFile (snd (Printer_EmptyInternalBuffer s)) = bPrinterFile s"
  "nPrinterBufferChars (snd (Printer_EmptyInternalBuffer s)) \<le> nPrinterBufferChars s"
  "nPrinterBufferCharsOnLine (snd (Printer_EmptyInternalBuffer s)) = nPrinterBufferCharsOnLine s"
  by (simp_all add: Printer_EmptyInternalBuffer_def Printer_EmptyFile_def
      Printer_ResetInternalBuffer_def)

lemma tab_loop_frame:
  "tab_loop i NumSpaces s = Inr s' \<Longrightarrow>
   nIdleCount s' = nIdleCount s \<and> bConnectedPrinter s' = bConnectedPrinter s \<and>
   bPrinterFile s' = bPrinterFile s \<and>
   (nPrinterBufferChars s \<le> PRINTER_BUFFER_SIZE \<longrightarrow>
      nPrinterBufferChars s' \<le> PRINTER_BUFFER_SIZE) \<and>
   nPrinterBufferCharsOnLine s' = nPrinterBufferCharsOnLine s + of_nat (nat (NumSpaces - i))"
proof (induction i NumSpaces s rule: tab_loop.induct)
  case (1 i NumSpaces s)
  show ?case
  proof (cases "i < NumSpaces")
    case False
    with "1.prems" show ?thesis by (simp add: tab_loop.simps [of i NumSpaces s])
  next
    case True
    then have k: "nat (NumSpaces - i) = Suc (nat (NumSpaces - (i + 1)))" by simp
    from True "1.prems" obtain s1 where
      st: "PrinterBuffer_store 0x20 s = Inr s1" and
      l: "tab_loop (i + 1) NumSpaces
            (s1\<lparr>nPrinterBufferCharsOnLine := nPrinterBufferCharsOnLine s1 + 1\<rparr>) = Inr s'"
      by (auto simp: tab_loop.simps [of i NumSpaces s] split: sum.splits)
    from "1.IH" [OF True st l] store_frame [OF st] show ?thesis
      unfolding k by simp
  qed
qed

lemma AddTab_frame:
  "Printer_AddTabToInternalBuffer s = Inr s' \<Longrightarrow>
   nIdleCount s' = nIdleCount s \<and> bConnectedPrinter s' = bConnectedPrinter s \<and>
   bPrinterFile s' = bPrinterFile s \<and>
   (nPrinterBufferChars s \<le> PRINTER_BUFFER_SIZE \<longrightarrow>
      nPrinterBufferChars s' \<le> PRINTER_BUFFER_SIZE) \<and>
   nPrinterBufferCharsOnLine s' =
     nPrinterBufferCharsOnLine s + of_nat (nat (tab_spaces (nPrinterBufferCharsOnLine s)))"
proof -
  assume a: "Printer_AddTabToInternalBuffer s = Inr s'"
  let ?s1 = "if nPrinterBufferChars s \<ge> PRINTER_BUFFER_SIZE - PRINTER_TAB_SETTING
             then snd (Printer_EmptyInternalBuffer s) else s"
  have f: "nIdleCount ?s1 = nIdleCount s" "bConnectedPrinter ?s1 = bConnectedPrinter s"
    "bPrinterFile ?s1 = bPrinterFile s" "nPrinterBufferChars ?s1 \<le> nPrinterBufferChars s"
    "nPrinterBufferCharsOnLine ?s1 = nPrinterBufferCharsOnLine s"
    by (simp_all add: EmptyInternalBuffer_frame)
  from a have "tab_loop 0 (tab_spaces (nPrinterBufferCharsOnLine ?s1)) ?s1 = Inr s'"
    by (simp add: Printer_AddTabToInternalBuffer_def Let_def)
  from tab_loop_frame [OF this] f show ?thesis by auto
qed

lemma AddByte_frame:
  "Printer_AddByteToInternalBuffer b s = Inr s' \<Longrightarrow>
   nIdleCount s' = nIdleCount s \<and> bConnectedPrinter s' = bConnectedPrinter s \<and>
   bPrinterFile s' = bPrinterFile s \<and> nPrinterBufferChars s' \<le> PRINTER_BUFFER_SIZE \<and>
   nPrinterBufferCharsOnLine s' =
     (if b = 0xd \<or> b = 0xa then nPrinterBufferCharsOnLine s
      else nPrinterBufferCharsOnLine s + 1)"
  unfolding Printer_AddByteToInternalBuffer_def Let_def
  by (auto dest!: store_frame simp: EmptyInternalBuffer_frame split: if_splits sum.splits)

lemma Transfer_idle:
  "Printer_TransferByteTo en fopen_ok b s = Inr (r, s') \<Longrightarrow> nIdleCount s' = nIdleCount s"
  unfolding Printer_TransferByteTo_def Let_def
  by (auto dest!: AddTab_frame AddByte_frame
      simp: OpenFile_eq Printer_ResetInternalBuffer_def Printer_ResetCharsOnLine_def
      split: if_splits sum.splits)

section \<open>The invariant\<close>

lemma initial_consistent: "consistent Printer_initial"
  by (simp add: consistent_def)

lemma Transfer_keeps_consistent:
  "consistent s \<Longrightarrow> Printer_TransferByteTo en fopen_ok b s = Inr (r, s') \<Longrightarrow> consistent s'"
  unfolding Printer_TransferByteTo_def Let_def
  by (auto dest!: AddTab_frame AddByte_frame
      simp: consistent_def OpenFile_eq Printer_ResetInternalBuffer_def
        Printer_ResetCharsOnLine_def
      split: if_splits sum.splits)

lemma Transfer_connected_ok:
  assumes conn: "bConnectedPrinter s" and fopen: "bPrinterFile s"
    and le: "nPrinterBufferChars s \<le> PRINTER_BUFFER_SIZE"
    and fit: "b = 9 \<longrightarrow> 0 \<le> sint (nPrinterBufferCharsOnLine s)"
  shows "\<exists>s'. Printer_TransferByteTo True fopen_ok b s = Inr (True, s') \<and>
           bConnectedPrinter s' \<and> bPrinterFile s' \<and>
           nPrinterBufferChars s' \<le> PRINTER_BUFFER_SIZE \<and> nIdleCount s' = nIdleCount s"
proof -
  consider (invalid) "\<not> Printer_ValidByte b"
    | (tab_room) "b = 9" "nPrinterBufferChars s < PRINTER_BUFFER_SIZE - PRINTER_TAB_SETTING"
    | (tab_flush) "b = 9" "\<not> nPrinterBufferChars s < PRINTER_BUFFER_SIZE - PRINTER_TAB_SETTING"
    | (byte_room) "Printer_ValidByte b" "b \<noteq> 9" "nPrinterBufferChars s < PRINTER_BUFFER_SIZE"
    | (byte_full) "Printer_ValidByte b" "b \<noteq> 9" "\<not> nPrinterBufferChars s < PRINTER_BUFFER_SIZE"
    by blast
  then show ?thesis
  proof cases
    case invalid
    then show ?thesis using assms by (simp add: Transfer_invalid)
  next
    case tab_room
    from tab_room(1) fit
    have "tab_spaces (nPrinterBufferCharsOnLine s) \<le> 8"
      by (simp add: tab_spaces_nonneg_range)
    with tab_room(2)
    have "nPrinterBufferChars s + nat (tab_spaces (nPrinterBufferCharsOnLine s))
            \<le> PRINTER_BUFFER_SIZE"
      by simp
    from AddTab_room [OF tab_room(2) this] obtain s' where
      "Printer_AddTabToInternalBuffer s = Inr s'"
      "nPrinterBufferChars s' =
         nPrinterBufferChars s + nat (tab_spaces (nPrinterBufferCharsOnLine s))"
      "bConnectedPrinter s' = bConnectedPrinter s" "bPrinterFile s' = bPrinterFile s"
      "nIdleCount s' = nIdleCount s"
      by blast
    then show ?thesis
      using tab_room conn fopen
        \<open>nPrinterBufferChars s + nat (tab_spaces (nPrinterBufferCharsOnLine s))
            \<le> PRINTER_BUFFER_SIZE\<close>
      by (simp add: Transfer_tab)
  next
    case tab_flush
    from tab_flush(2) have "PRINTER_BUFFER_SIZE - PRINTER_TAB_SETTING \<le> nPrinterBufferChars s"
      by simp
    from AddTab_flush [OF this fopen] obtain s' where
      "Printer_AddTabToInternalBuffer s = Inr s'"
      "nPrinterBufferChars s' = nat (tab_spaces (nPrinterBufferCharsOnLine s))"
      "bConnectedPrinter s' = bConnectedPrinter s" "bPrinterFile s' = bPrinterFile s"
      "nIdleCount s' = nIdleCount s"
      by blast
    moreover have "nat (tab_spaces (nPrinterBufferCharsOnLine s)) \<le> 2048"
      using tab_spaces_range [of "nPrinterBufferCharsOnLine s"] by linarith
    ultimately show ?thesis
      using tab_flush conn fopen by (simp add: Transfer_tab)
  next
    case byte_room
    from AddByte_room [OF byte_room(3), of b] obtain s' where
      "Printer_AddByteToInternalBuffer b s = Inr s'"
      "nPrinterBufferChars s' = nPrinterBufferChars s + 1"
      "bConnectedPrinter s' = bConnectedPrinter s" "bPrinterFile s' = bPrinterFile s"
      "nIdleCount s' = nIdleCount s"
      by blast
    then show ?thesis
      using byte_room conn fopen
      by (simp add: Transfer_byte [OF conn byte_room(1,2)])
  next
    case byte_full
    from byte_full(3) le have "nPrinterBufferChars s = PRINTER_BUFFER_SIZE" by simp
    from AddByte_full [OF this fopen, of b] obtain s' where
      "Printer_AddByteToInternalBuffer b s = Inr s'"
      "nPrinterBufferChars s' = 1"
      "bConnectedPrinter s' = bConnectedPrinter s" "bPrinterFile s' = bPrinterFile s"
      "nIdleCount s' = nIdleCount s"
      by blast
    then show ?thesis
      using byte_full conn fopen
      by (simp add: Transfer_byte [OF conn byte_full(1,2)])
  qed
qed

lemma Transfer_connects:
  assumes "\<not> bConnectedPrinter s"
  shows "\<exists>s'. Printer_TransferByteTo True True b s = Inr (True, s') \<and>
           bConnectedPrinter s' \<and> bPrinterFile s' \<and>
           nPrinterBufferChars s' \<le> PRINTER_BUFFER_SIZE \<and> nIdleCount s' = nIdleCount s"
proof -
  let ?s1 = "s\<lparr>bPrinterFile := True, bConnectedPrinter := True,
                nPrinterBufferChars := 0, nPrinterBufferCharsOnLine := 0\<rparr>"
  have "bConnectedPrinter ?s1" "bPrinterFile ?s1" "nPrinterBufferChars ?s1 \<le> PRINTER_BUFFER_SIZE"
    "b = 9 \<longrightarrow> 0 \<le> sint (nPrinterBufferCharsOnLine ?s1)"
    by simp_all
  from Transfer_connected_ok [OF this, of True] show ?thesis
    using Transfer_open_ok [OF assms, of b] by simp
qed

lemma Transfer_consistent:
  assumes c: "consistent s" and col: "b = 9 \<longrightarrow> 0 \<le> sint (nPrinterBufferCharsOnLine s)"
  shows "\<exists>r s'. Printer_TransferByteTo en fopen_ok b s = Inr (r, s') \<and> consistent s'"
proof -
  have "\<exists>r s'. Printer_TransferByteTo en fopen_ok b s = Inr (r, s')"
  proof (cases en)
    case False
    then show ?thesis by (auto simp: Transfer_disabled)
  next
    case en: True
    show ?thesis
    proof (cases "bConnectedPrinter s")
      case True
      with c have "bPrinterFile s" "nPrinterBufferChars s \<le> PRINTER_BUFFER_SIZE"
        by (simp_all add: consistent_def)
      from Transfer_connected_ok [OF True this col, of fopen_ok] show ?thesis
        using en by auto
    next
      case disc: False
      show ?thesis
      proof (cases fopen_ok)
        case False
        then show ?thesis using disc en by (auto simp: Transfer_open_failed)
      next
        case True
        from Transfer_connects [OF disc, of b] show ?thesis
          using en True by auto
      qed
    qed
  qed
  with Transfer_keeps_consistent [OF c] show ?thesis by blast
qed

lemma CheckIdleStatus_eq:
  "Printer_CheckIdleStatus s =
     (if 0 < nPrinterBufferChars s
      then (if bPrinterFile s
            then s\<lparr>fwrites := fwrites s @ [buffered s], nPrinterBufferChars := 0,
                    nIdleCount := 0\<rparr>
            else s\<lparr>nIdleCount := 0\<rparr>)
      else if PRINTER_IDLE_CLOSE \<le> nIdleCount s + 1
           then s\<lparr>bPrinterFile := False, bConnectedPrinter := False, nIdleCount := 0\<rparr>
           else s\<lparr>nIdleCount := nIdleCount s + 1\<rparr>)"
  by (simp add: Printer_CheckIdleStatus_def CloseAllConnections_eq Let_def
      Printer_EmptyInternalBuffer_def Printer_EmptyFile_def Printer_ResetInternalBuffer_def)

lemma CheckIdleStatus_consistent:
  "consistent s \<Longrightarrow> consistent (Printer_CheckIdleStatus s)"
  by (auto simp: consistent_def CheckIdleStatus_eq)

lemma step_keeps_consistent:
  "consistent s \<Longrightarrow> step x s = Inr s' \<Longrightarrow> consistent s'"
proof (cases x)
  case (TransferByteTo en fopen_ok b)
  assume "consistent s" "step x s = Inr s'"
  then show ?thesis using TransferByteTo
    by (auto dest: Transfer_keeps_consistent split: sum.splits)
next
  case CheckIdleStatus
  assume "consistent s" "step x s = Inr s'"
  then show ?thesis using CheckIdleStatus by (auto simp: CheckIdleStatus_consistent)
next
  case EmptyInternalBuffer
  assume "consistent s" "step x s = Inr s'"
  then show ?thesis using EmptyInternalBuffer
    by (auto simp: consistent_def Printer_EmptyInternalBuffer_def Printer_EmptyFile_def
        Printer_ResetInternalBuffer_def split: if_splits)
next
  case CloseAllConnections
  assume "consistent s" "step x s = Inr s'"
  then show ?thesis using CloseAllConnections
    by (auto simp: consistent_def CloseAllConnections_eq split: if_splits)
next
  case ResetInternalBuffer
  assume "consistent s" "step x s = Inr s'"
  then show ?thesis using ResetInternalBuffer
    by (auto simp: consistent_def Printer_ResetInternalBuffer_def)
next
  case ResetCharsOnLine
  assume "consistent s" "step x s = Inr s'"
  then show ?thesis using ResetCharsOnLine
    by (auto simp: consistent_def Printer_ResetCharsOnLine_def)
qed

lemma run_keeps_consistent:
  "consistent s \<Longrightarrow> run s xs = Inr s' \<Longrightarrow> consistent s'"
proof (induction xs arbitrary: s)
  case Nil
  then show ?case by simp
next
  case (Cons x xs)
  then obtain s1 where s1: "step x s = Inr s1" "run s1 xs = Inr s'"
    by (auto split: sum.splits)
  from step_keeps_consistent [OF Cons.prems(1) s1(1)] Cons.IH s1(2) show ?case by blast
qed

section \<open>Runs in which the column counter does not wrap\<close>

text \<open>
  One call adds at most 8 to a column counter that is not negative. So a run from a
  consistent state with such a counter returns, with the counter still not negative, as
  long as the counter cannot pass \<open>INT_MAX\<close>: every run of fewer than \<open>2^28\<close> calls from the
  initial state does.
\<close>

lemma Transfer_column:
  assumes "Printer_TransferByteTo en fopen_ok b s = Inr (r, s')"
    and "0 \<le> sint (nPrinterBufferCharsOnLine s)"
    and "sint (nPrinterBufferCharsOnLine s) + 8 < 2 ^ 31"
  shows "0 \<le> sint (nPrinterBufferCharsOnLine s') \<and>
         sint (nPrinterBufferCharsOnLine s') \<le> sint (nPrinterBufferCharsOnLine s) + 8"
proof -
  let ?c = "nPrinterBufferCharsOnLine s"
  have one: "sint (?c + 1) = sint ?c + 1"
    using sint_add_small [of ?c 1] assms(2,3) by simp
  have k8: "nat (tab_spaces ?c) \<le> 8" "tab_spaces ?c \<le> 8" "0 \<le> tab_spaces ?c"
    using tab_spaces_nonneg_range [OF assms(2)] by linarith+
  then have tab: "sint (?c + of_nat (nat (tab_spaces ?c))) = sint ?c + tab_spaces ?c"
    using sint_add_small [of ?c "nat (tab_spaces ?c)"] assms(2,3) by simp
  have t8: "sint ((0::32 word) + of_nat (nat (tab_spaces 0))) = 8" by simp
  from assms(1) show ?thesis
    unfolding Printer_TransferByteTo_def Let_def
    using assms(2,3) one tab k8 t8
    by (auto dest!: AddTab_frame AddByte_frame
        simp: OpenFile_eq Printer_ResetInternalBuffer_def Printer_ResetCharsOnLine_def
        split: if_splits sum.splits)
qed

lemma step_column:
  assumes "step x s = Inr s'"
    and "0 \<le> sint (nPrinterBufferCharsOnLine s)"
    and "sint (nPrinterBufferCharsOnLine s) + 8 < 2 ^ 31"
  shows "0 \<le> sint (nPrinterBufferCharsOnLine s') \<and>
         sint (nPrinterBufferCharsOnLine s') \<le> sint (nPrinterBufferCharsOnLine s) + 8"
proof (cases x)
  case (TransferByteTo en fopen_ok b)
  with assms(1) obtain r where "Printer_TransferByteTo en fopen_ok b s = Inr (r, s')"
    by (auto split: sum.splits)
  from Transfer_column [OF this assms(2,3)] show ?thesis .
qed (use assms in \<open>auto simp: CheckIdleStatus_eq CloseAllConnections_eq EmptyInternalBuffer_frame
        Printer_ResetInternalBuffer_def Printer_ResetCharsOnLine_def split: if_splits\<close>)

lemma step_returns:
  assumes "consistent s" and "0 \<le> sint (nPrinterBufferCharsOnLine s)"
  shows "\<exists>s'. step x s = Inr s'"
proof (cases x)
  case (TransferByteTo en fopen_ok b)
  from Transfer_consistent [OF assms(1), of b en fopen_ok] assms(2) show ?thesis
    using TransferByteTo by auto
qed simp_all

lemma run_returns:
  assumes "consistent s" and "0 \<le> sint (nPrinterBufferCharsOnLine s)"
    and "sint (nPrinterBufferCharsOnLine s) + 8 * int (length xs) < 2 ^ 31"
  shows "\<exists>s'. run s xs = Inr s' \<and> consistent s' \<and>
           0 \<le> sint (nPrinterBufferCharsOnLine s') \<and>
           sint (nPrinterBufferCharsOnLine s')
             \<le> sint (nPrinterBufferCharsOnLine s) + 8 * int (length xs)"
  using assms
proof (induction xs arbitrary: s)
  case Nil
  then show ?case by simp
next
  case (Cons x xs)
  from step_returns [OF Cons.prems(1,2), of x] obtain s1 where s1: "step x s = Inr s1" ..
  have c1: "consistent s1" using Cons.prems(1) s1 by (rule step_keeps_consistent)
  from Cons.prems(3) have "sint (nPrinterBufferCharsOnLine s) + 8 < 2 ^ 31" by simp
  from step_column [OF s1 Cons.prems(2) this]
  have col1: "0 \<le> sint (nPrinterBufferCharsOnLine s1)"
    "sint (nPrinterBufferCharsOnLine s1) \<le> sint (nPrinterBufferCharsOnLine s) + 8"
    by simp_all
  with Cons.prems(3)
  have "sint (nPrinterBufferCharsOnLine s1) + 8 * int (length xs) < 2 ^ 31" by simp
  from Cons.IH [OF c1 col1(1) this] obtain s' where
    "run s1 xs = Inr s'" "consistent s'" "0 \<le> sint (nPrinterBufferCharsOnLine s')"
    "sint (nPrinterBufferCharsOnLine s')
       \<le> sint (nPrinterBufferCharsOnLine s1) + 8 * int (length xs)"
    by blast
  with s1 col1(2) show ?case by simp
qed

lemma run_from_initial_returns:
  assumes "length xs < 2 ^ 28"
  shows "\<exists>s. run Printer_initial xs = Inr s \<and> consistent s \<and>
           0 \<le> sint (nPrinterBufferCharsOnLine s)"
proof -
  have "sint (nPrinterBufferCharsOnLine Printer_initial) + 8 * int (length xs) < 2 ^ 31"
    using assms by simp
  from run_returns [OF initial_consistent _ this] show ?thesis by auto
qed

lemma run_append:
  "run s (xs @ ys) = (case run s xs of Inl e \<Rightarrow> Inl e | Inr s' \<Rightarrow> run s' ys)"
  by (induction xs arbitrary: s) (auto split: sum.splits)

lemma printable_valid:
  assumes "printable b"
  shows "Printer_ValidByte b" and "b \<noteq> 9" and "b \<noteq> 0xd" and "b \<noteq> 0xa"
  using assms
  by (auto simp: printable_def Printer_ValidByte_def word_le_nat_alt word_less_nat_alt)

lemma Transfer_printable_room:
  assumes conn: "bConnectedPrinter s" and p: "printable b"
    and room: "nPrinterBufferChars s < PRINTER_BUFFER_SIZE"
  shows "\<exists>s'. Printer_TransferByteTo True fopen_ok b s = Inr (True, s') \<and>
           buffered s' = buffered s @ [b] \<and> fwrites s' = fwrites s \<and>
           nPrinterBufferChars s' = nPrinterBufferChars s + 1 \<and>
           bConnectedPrinter s' \<and> bPrinterFile s' = bPrinterFile s"
proof -
  from AddByte_room [OF room, of b] obtain s2 where
    "Printer_AddByteToInternalBuffer b s = Inr s2" "buffered s2 = buffered s @ [b]"
    "nPrinterBufferChars s2 = nPrinterBufferChars s + 1"
    "bConnectedPrinter s2 = bConnectedPrinter s" "bPrinterFile s2 = bPrinterFile s"
    "fwrites s2 = fwrites s"
    by blast
  then show ?thesis
    using conn printable_valid [OF p]
    by (simp add: Transfer_byte [OF conn printable_valid(1,2) [OF p]])
qed

lemma run_printable_room:
  assumes "bConnectedPrinter s" and "\<forall>b\<in>set bs. printable b"
    and "nPrinterBufferChars s + length bs \<le> PRINTER_BUFFER_SIZE"
  shows "\<exists>s'. run s (map (TransferByteTo True fopen_ok) bs) = Inr s' \<and>
           buffered s' = buffered s @ bs \<and> fwrites s' = fwrites s \<and>
           nPrinterBufferChars s' = nPrinterBufferChars s + length bs \<and>
           bConnectedPrinter s' \<and> bPrinterFile s' = bPrinterFile s"
  using assms
proof (induction bs arbitrary: s)
  case Nil
  then show ?case by simp
next
  case (Cons b bs)
  from Cons.prems have p: "printable b" and room: "nPrinterBufferChars s < PRINTER_BUFFER_SIZE"
    by simp_all
  from Transfer_printable_room [OF Cons.prems(1) p room, of fopen_ok] obtain s1 where
    s1: "Printer_TransferByteTo True fopen_ok b s = Inr (True, s1)"
      "buffered s1 = buffered s @ [b]" "fwrites s1 = fwrites s"
      "nPrinterBufferChars s1 = nPrinterBufferChars s + 1"
      "bConnectedPrinter s1" "bPrinterFile s1 = bPrinterFile s"
    by blast
  have "\<exists>s'. run s1 (map (TransferByteTo True fopen_ok) bs) = Inr s' \<and>
           buffered s' = buffered s1 @ bs \<and> fwrites s' = fwrites s1 \<and>
           nPrinterBufferChars s' = nPrinterBufferChars s1 + length bs \<and>
           bConnectedPrinter s' \<and> bPrinterFile s' = bPrinterFile s1"
    using Cons.prems s1 by (intro Cons.IH) simp_all
  then show ?case using s1 by auto
qed

lemma run_printable_from_initial:
  assumes "0 < k" and "k \<le> PRINTER_BUFFER_SIZE" and "printable b"
  shows "\<exists>s'. run Printer_initial (map (TransferByteTo True True) (replicate k b)) = Inr s' \<and>
           buffered s' = replicate k b \<and> fwrites s' = [] \<and> nPrinterBufferChars s' = k \<and>
           bConnectedPrinter s' \<and> bPrinterFile s'"
proof -
  from assms(1) obtain j where k: "k = Suc j" by (cases k) auto
  let ?s0 = "Printer_initial\<lparr>bPrinterFile := True, bConnectedPrinter := True,
                nPrinterBufferChars := 0, nPrinterBufferCharsOnLine := 0\<rparr>"
  have "bConnectedPrinter ?s0" "nPrinterBufferChars ?s0 < PRINTER_BUFFER_SIZE" by simp_all
  from Transfer_printable_room [OF this(1) assms(3) this(2), of True] obtain s1 where
    s1: "Printer_TransferByteTo True True b Printer_initial = Inr (True, s1)"
      "buffered s1 = [b]" "fwrites s1 = []" "nPrinterBufferChars s1 = 1"
      "bConnectedPrinter s1" "bPrinterFile s1"
    using Transfer_open_ok [of Printer_initial b] by (auto simp: buffered_empty)
  have "\<forall>x\<in>set (replicate j b). printable x" using assms(3) by simp
  moreover have "nPrinterBufferChars s1 + length (replicate j b) \<le> PRINTER_BUFFER_SIZE"
    using assms(2) s1(4) k by simp
  ultimately obtain s' where
    "run s1 (map (TransferByteTo True True) (replicate j b)) = Inr s'"
    "buffered s' = buffered s1 @ replicate j b" "fwrites s' = fwrites s1"
    "nPrinterBufferChars s' = nPrinterBufferChars s1 + length (replicate j b)"
    "bConnectedPrinter s'" "bPrinterFile s' = bPrinterFile s1"
    using run_printable_room [OF s1(5), of "replicate j b" True] by blast
  then show ?thesis using s1 k by simp
qed

lemma ticks_idle:
  "nPrinterBufferChars s = 0 \<Longrightarrow> nIdleCount s + k < PRINTER_IDLE_CLOSE \<Longrightarrow>
   (Printer_CheckIdleStatus ^^ k) s = s\<lparr>nIdleCount := nIdleCount s + k\<rparr>"
proof (induction k)
  case 0
  then show ?case by simp
next
  case (Suc k)
  then have "(Printer_CheckIdleStatus ^^ k) s = s\<lparr>nIdleCount := nIdleCount s + k\<rparr>"
    by simp
  then have "(Printer_CheckIdleStatus ^^ Suc k) s =
               Printer_CheckIdleStatus (s\<lparr>nIdleCount := nIdleCount s + k\<rparr>)"
    by simp
  also have "\<dots> = s\<lparr>nIdleCount := nIdleCount s + Suc k\<rparr>"
    using Suc.prems by (simp add: CheckIdleStatus_eq)
  finally show ?case .
qed

lemma ticks_close:
  assumes "nPrinterBufferChars s = 0" and "nIdleCount s < PRINTER_IDLE_CLOSE"
  shows "(Printer_CheckIdleStatus ^^ (PRINTER_IDLE_CLOSE - nIdleCount s)) s =
           s\<lparr>bPrinterFile := False, bConnectedPrinter := False, nIdleCount := 0\<rparr>"
proof -
  have k: "PRINTER_IDLE_CLOSE - nIdleCount s = Suc (199 - nIdleCount s)"
    using assms(2) by simp
  have "(Printer_CheckIdleStatus ^^ (199 - nIdleCount s)) s =
          s\<lparr>nIdleCount := nIdleCount s + (199 - nIdleCount s)\<rparr>"
    using assms by (intro ticks_idle) simp_all
  then have "(Printer_CheckIdleStatus ^^ Suc (199 - nIdleCount s)) s =
          Printer_CheckIdleStatus (s\<lparr>nIdleCount := nIdleCount s + (199 - nIdleCount s)\<rparr>)"
    by simp
  also have "\<dots> = s\<lparr>bPrinterFile := False, bConnectedPrinter := False, nIdleCount := 0\<rparr>"
    using assms by (simp add: CheckIdleStatus_eq)
  finally show ?thesis unfolding k .
qed

lemma tick_flushes:
  "bPrinterFile s \<Longrightarrow> 0 < nPrinterBufferChars s \<Longrightarrow>
   Printer_CheckIdleStatus s =
     s\<lparr>fwrites := fwrites s @ [buffered s], nPrinterBufferChars := 0, nIdleCount := 0\<rparr>"
  by (simp add: CheckIdleStatus_eq)

lemma ticks_after_data:
  assumes "bPrinterFile s" and "0 < nPrinterBufferChars s" and "bConnectedPrinter s"
  shows "(\<forall>k\<le>PRINTER_IDLE_CLOSE. bConnectedPrinter ((Printer_CheckIdleStatus ^^ k) s))"
    and "\<not> bConnectedPrinter ((Printer_CheckIdleStatus ^^ (PRINTER_IDLE_CLOSE + 1)) s)"
    and "nIdleCount ((Printer_CheckIdleStatus ^^ (PRINTER_IDLE_CLOSE + 1)) s) = 0"
proof -
  let ?s2 = "s\<lparr>fwrites := fwrites s @ [buffered s], nPrinterBufferChars := 0,
               nIdleCount := 0\<rparr>"
  have t: "Printer_CheckIdleStatus s = ?s2" using assms by (simp add: tick_flushes)
  have later: "(Printer_CheckIdleStatus ^^ Suc j) s = (Printer_CheckIdleStatus ^^ j) ?s2" for j
    by (simp add: funpow_swap1 t)
  show "\<forall>k\<le>PRINTER_IDLE_CLOSE. bConnectedPrinter ((Printer_CheckIdleStatus ^^ k) s)"
  proof (intro allI impI)
    fix k assume k: "k \<le> PRINTER_IDLE_CLOSE"
    show "bConnectedPrinter ((Printer_CheckIdleStatus ^^ k) s)"
    proof (cases k)
      case 0
      then show ?thesis using assms(3) by simp
    next
      case (Suc j)
      with k have "nIdleCount ?s2 + j < PRINTER_IDLE_CLOSE" by simp
      then have "(Printer_CheckIdleStatus ^^ j) ?s2 = ?s2\<lparr>nIdleCount := nIdleCount ?s2 + j\<rparr>"
        by (intro ticks_idle) simp_all
      moreover have "(Printer_CheckIdleStatus ^^ k) s = (Printer_CheckIdleStatus ^^ j) ?s2"
        unfolding Suc by (rule later)
      ultimately show ?thesis using assms(3) by simp
    qed
  qed
  have "(Printer_CheckIdleStatus ^^ (PRINTER_IDLE_CLOSE - nIdleCount ?s2)) ?s2 =
          ?s2\<lparr>bPrinterFile := False, bConnectedPrinter := False, nIdleCount := 0\<rparr>"
    by (intro ticks_close) simp_all
  then have c: "(Printer_CheckIdleStatus ^^ 200) ?s2 =
          ?s2\<lparr>bPrinterFile := False, bConnectedPrinter := False, nIdleCount := 0\<rparr>"
    by simp
  have "(Printer_CheckIdleStatus ^^ (PRINTER_IDLE_CLOSE + 1)) s
          = (Printer_CheckIdleStatus ^^ 200) ?s2"
    using later [of 200] by simp
  with c show "\<not> bConnectedPrinter ((Printer_CheckIdleStatus ^^ (PRINTER_IDLE_CLOSE + 1)) s)"
    and "nIdleCount ((Printer_CheckIdleStatus ^^ (PRINTER_IDLE_CLOSE + 1)) s) = 0"
    by simp_all
qed

lemma ticks_without_data:
  assumes "nPrinterBufferChars s = 0" and "nIdleCount s < PRINTER_IDLE_CLOSE"
    and "bConnectedPrinter s"
  shows "(\<forall>k<PRINTER_IDLE_CLOSE - nIdleCount s.
            bConnectedPrinter ((Printer_CheckIdleStatus ^^ k) s))"
    and "\<not> bConnectedPrinter
            ((Printer_CheckIdleStatus ^^ (PRINTER_IDLE_CLOSE - nIdleCount s)) s)"
    and "nIdleCount ((Printer_CheckIdleStatus ^^ (PRINTER_IDLE_CLOSE - nIdleCount s)) s) = 0"
proof -
  show "\<forall>k<PRINTER_IDLE_CLOSE - nIdleCount s.
            bConnectedPrinter ((Printer_CheckIdleStatus ^^ k) s)"
  proof (intro allI impI)
    fix k assume "k < PRINTER_IDLE_CLOSE - nIdleCount s"
    then have "nIdleCount s + k < PRINTER_IDLE_CLOSE" by simp
    from ticks_idle [OF assms(1) this] show "bConnectedPrinter ((Printer_CheckIdleStatus ^^ k) s)"
      using assms(3) by simp
  qed
  from ticks_close [OF assms(1,2)]
  show "\<not> bConnectedPrinter
            ((Printer_CheckIdleStatus ^^ (PRINTER_IDLE_CLOSE - nIdleCount s)) s)"
    and "nIdleCount ((Printer_CheckIdleStatus ^^ (PRINTER_IDLE_CLOSE - nIdleCount s)) s) = 0"
    by simp_all
qed

lemma Transfer_connects_invalid:
  "\<not> bConnectedPrinter s \<Longrightarrow> \<not> Printer_ValidByte b \<Longrightarrow>
   Printer_TransferByteTo True True b s =
     Inr (True, s\<lparr>bPrinterFile := True, bConnectedPrinter := True,
                  nPrinterBufferChars := 0, nPrinterBufferCharsOnLine := 0\<rparr>)"
  by (simp add: Transfer_open_ok Transfer_invalid)

lemma Transfer_connects_valid:
  assumes disc: "\<not> bConnectedPrinter s" and v: "Printer_ValidByte b"
  shows "\<exists>s'. Printer_TransferByteTo True True b s = Inr (True, s') \<and>
           bConnectedPrinter s' \<and> bPrinterFile s' \<and> 0 < nPrinterBufferChars s' \<and>
           nIdleCount s' = nIdleCount s"
proof -
  let ?s1 = "s\<lparr>bPrinterFile := True, bConnectedPrinter := True,
                nPrinterBufferChars := 0, nPrinterBufferCharsOnLine := 0\<rparr>"
  have conn: "bConnectedPrinter ?s1" by simp
  show ?thesis
  proof (cases "b = 9")
    case True
    have "nPrinterBufferChars ?s1 < PRINTER_BUFFER_SIZE - PRINTER_TAB_SETTING"
      "nPrinterBufferChars ?s1 + nat (tab_spaces (nPrinterBufferCharsOnLine ?s1))
         \<le> PRINTER_BUFFER_SIZE"
      by simp_all
    from AddTab_room [OF this] obtain s' where
      "Printer_AddTabToInternalBuffer ?s1 = Inr s'"
      "nPrinterBufferChars s' =
         nPrinterBufferChars ?s1 + nat (tab_spaces (nPrinterBufferCharsOnLine ?s1))"
      "bConnectedPrinter s' = bConnectedPrinter ?s1" "bPrinterFile s' = bPrinterFile ?s1"
      "nIdleCount s' = nIdleCount ?s1"
      by blast
    then show ?thesis
      using True Transfer_open_ok [OF disc, of b] Transfer_tab [OF conn, of True] by simp
  next
    case False
    have "nPrinterBufferChars ?s1 < PRINTER_BUFFER_SIZE" by simp
    from AddByte_room [OF this, of b] obtain s' where
      "Printer_AddByteToInternalBuffer b ?s1 = Inr s'"
      "nPrinterBufferChars s' = nPrinterBufferChars ?s1 + 1"
      "bConnectedPrinter s' = bConnectedPrinter ?s1" "bPrinterFile s' = bPrinterFile ?s1"
      "nIdleCount s' = nIdleCount ?s1"
      by blast
    then show ?thesis
      using Transfer_open_ok [OF disc, of b] Transfer_byte [OF conn v False, of True] by simp
  qed
qed

section \<open>Long runs of one byte\<close>

text \<open>
  A printable byte handed over \<open>k\<close> times to a connected printer: the buffer fills, is
  written out at 2048 and fills again, and the column counter has \<open>k\<close> added to it in the
  arithmetic of the 32-bit word.
\<close>

lemma Transfer_printable_any:
  assumes conn: "bConnectedPrinter s" and fopen: "bPrinterFile s" and p: "printable b"
    and n: "1 \<le> nPrinterBufferChars s" "nPrinterBufferChars s \<le> PRINTER_BUFFER_SIZE"
    and same: "buffered s = replicate (nPrinterBufferChars s) b"
  shows "\<exists>s'. Printer_TransferByteTo True True b s = Inr (True, s') \<and>
           bConnectedPrinter s' \<and> bPrinterFile s' \<and>
           nPrinterBufferChars s' = nPrinterBufferChars s mod PRINTER_BUFFER_SIZE + 1 \<and>
           buffered s' = replicate (nPrinterBufferChars s') b \<and>
           nPrinterBufferCharsOnLine s' = nPrinterBufferCharsOnLine s + 1"
proof (cases "nPrinterBufferChars s < PRINTER_BUFFER_SIZE")
  case True
  from AddByte_room [OF True, of b] obtain s2 where
    "Printer_AddByteToInternalBuffer b s = Inr s2" "buffered s2 = buffered s @ [b]"
    "nPrinterBufferChars s2 = nPrinterBufferChars s + 1"
    "nPrinterBufferCharsOnLine s2 =
       (if b = 0xd \<or> b = 0xa then nPrinterBufferCharsOnLine s
        else nPrinterBufferCharsOnLine s + 1)"
    "bConnectedPrinter s2 = bConnectedPrinter s" "bPrinterFile s2 = bPrinterFile s"
    by blast
  then show ?thesis
    using True conn fopen same printable_valid [OF p]
      Transfer_byte [OF conn printable_valid(1,2) [OF p], of True]
    by (simp add: replicate_append_same)
next
  case False
  with n have full: "nPrinterBufferChars s = PRINTER_BUFFER_SIZE" by simp
  from AddByte_full [OF full fopen, of b] obtain s2 where
    "Printer_AddByteToInternalBuffer b s = Inr s2" "buffered s2 = [b]"
    "nPrinterBufferChars s2 = 1"
    "nPrinterBufferCharsOnLine s2 =
       (if b = 0xd \<or> b = 0xa then nPrinterBufferCharsOnLine s
        else nPrinterBufferCharsOnLine s + 1)"
    "bConnectedPrinter s2 = bConnectedPrinter s" "bPrinterFile s2 = bPrinterFile s"
    by blast
  then show ?thesis
    using full conn fopen printable_valid [OF p]
      Transfer_byte [OF conn printable_valid(1,2) [OF p], of True]
    by simp
qed

lemma run_printable_cycle:
  assumes "bConnectedPrinter s" and "bPrinterFile s" and "printable b"
    and "1 \<le> nPrinterBufferChars s" and "nPrinterBufferChars s \<le> PRINTER_BUFFER_SIZE"
    and "buffered s = replicate (nPrinterBufferChars s) b"
  shows "\<exists>s'. run s (map (TransferByteTo True True) (replicate k b)) = Inr s' \<and>
           bConnectedPrinter s' \<and> bPrinterFile s' \<and>
           nPrinterBufferChars s' = (nPrinterBufferChars s - 1 + k) mod PRINTER_BUFFER_SIZE + 1 \<and>
           buffered s' = replicate (nPrinterBufferChars s') b \<and>
           nPrinterBufferCharsOnLine s' = nPrinterBufferCharsOnLine s + of_nat k"
  using assms
proof (induction k arbitrary: s)
  case 0
  then show ?case by simp
next
  case (Suc k)
  from Transfer_printable_any [OF Suc.prems] obtain s1 where
    s1: "Printer_TransferByteTo True True b s = Inr (True, s1)"
      "bConnectedPrinter s1" "bPrinterFile s1"
      "nPrinterBufferChars s1 = nPrinterBufferChars s mod PRINTER_BUFFER_SIZE + 1"
      "buffered s1 = replicate (nPrinterBufferChars s1) b"
      "nPrinterBufferCharsOnLine s1 = nPrinterBufferCharsOnLine s + 1"
    by blast
  have r1: "1 \<le> nPrinterBufferChars s1" "nPrinterBufferChars s1 \<le> PRINTER_BUFFER_SIZE"
    using s1(4) by (simp_all add: Suc_leI)
  from Suc.IH [OF s1(2,3) Suc.prems(3) r1 s1(5)] obtain s' where
    s': "run s1 (map (TransferByteTo True True) (replicate k b)) = Inr s'"
      "bConnectedPrinter s'" "bPrinterFile s'"
      "nPrinterBufferChars s' = (nPrinterBufferChars s1 - 1 + k) mod PRINTER_BUFFER_SIZE + 1"
      "buffered s' = replicate (nPrinterBufferChars s') b"
      "nPrinterBufferCharsOnLine s' = nPrinterBufferCharsOnLine s1 + of_nat k"
    by blast
  have "(nPrinterBufferChars s1 - 1 + k) mod PRINTER_BUFFER_SIZE
          = (nPrinterBufferChars s - 1 + Suc k) mod PRINTER_BUFFER_SIZE"
  proof -
    have "(nPrinterBufferChars s mod 2048 + k) mod 2048 = (nPrinterBufferChars s + k) mod 2048"
      by (simp add: mod_add_left_eq)
    moreover have "nPrinterBufferChars s - 1 + Suc k = nPrinterBufferChars s + k"
      using Suc.prems(4) by simp
    ultimately show ?thesis using s1(4) by simp
  qed
  with s1 s' show ?case by simp
qed

lemma run_linefeeds_room:
  assumes "bConnectedPrinter s" and "nPrinterBufferChars s + k \<le> PRINTER_BUFFER_SIZE"
  shows "\<exists>s'. run s (map (TransferByteTo True True) (replicate k 0x0a)) = Inr s' \<and>
           bConnectedPrinter s' \<and> bPrinterFile s' = bPrinterFile s \<and>
           nPrinterBufferChars s' = nPrinterBufferChars s + k \<and>
           nPrinterBufferCharsOnLine s' = nPrinterBufferCharsOnLine s"
  using assms
proof (induction k arbitrary: s)
  case 0
  then show ?case by simp
next
  case (Suc k)
  have v: "Printer_ValidByte 0x0a" "(0x0a::byte) \<noteq> 9"
    by (simp_all add: Printer_ValidByte_def)
  from Suc.prems have "nPrinterBufferChars s < PRINTER_BUFFER_SIZE" by simp
  from AddByte_room [OF this, of "0x0a"] obtain s1 where
    s1: "Printer_AddByteToInternalBuffer 0x0a s = Inr s1"
      "nPrinterBufferChars s1 = nPrinterBufferChars s + 1"
      "nPrinterBufferCharsOnLine s1 = nPrinterBufferCharsOnLine s"
      "bConnectedPrinter s1 = bConnectedPrinter s" "bPrinterFile s1 = bPrinterFile s"
    by auto
  then have t: "Printer_TransferByteTo True True 0x0a s = Inr (True, s1)"
    using Transfer_byte [OF Suc.prems(1) v, of True] by simp
  have "bConnectedPrinter s1" "nPrinterBufferChars s1 + k \<le> PRINTER_BUFFER_SIZE"
    using s1 Suc.prems by simp_all
  from Suc.IH [OF this] obtain s' where
    "run s1 (map (TransferByteTo True True) (replicate k 0x0a)) = Inr s'"
    "bConnectedPrinter s'" "bPrinterFile s' = bPrinterFile s1"
    "nPrinterBufferChars s' = nPrinterBufferChars s1 + k"
    "nPrinterBufferCharsOnLine s' = nPrinterBufferCharsOnLine s1"
    by blast
  with t s1 show ?case by simp
qed

text \<open>
  \<open>2^31 + 1\<close> bytes \<open>A\<close> from the initial state: one byte is in the buffer, and the column
  counter has wrapped to \<open>-2147483647\<close>.
\<close>

lemma column_wrapped:
  "\<exists>s. run Printer_initial (map (TransferByteTo True True) (replicate 2147483649 0x41)) = Inr s \<and>
       bConnectedPrinter s \<and> bPrinterFile s \<and> nPrinterBufferChars s = 1 \<and>
       buffered s = [0x41] \<and> nPrinterBufferCharsOnLine s = 2147483649 \<and>
       sint (nPrinterBufferCharsOnLine s) = - 2147483647"
proof -
  have p: "printable 0x41" by (simp add: printable_def)
  from run_printable_from_initial [OF _ _ p, of 1] obtain s1 where
    s1: "run Printer_initial [TransferByteTo True True 0x41] = Inr s1"
      "buffered s1 = [0x41]" "nPrinterBufferChars s1 = 1"
      "bConnectedPrinter s1" "bPrinterFile s1"
    by auto
  have c1: "nPrinterBufferCharsOnLine s1 = 1"
    using s1(1) Transfer_open_ok [of Printer_initial "0x41"]
      Transfer_byte [of "Printer_initial\<lparr>bPrinterFile := True, bConnectedPrinter := True,
          nPrinterBufferChars := 0, nPrinterBufferCharsOnLine := 0\<rparr>" "0x41" True]
      AddByte_room [of "Printer_initial\<lparr>bPrinterFile := True, bConnectedPrinter := True,
          nPrinterBufferChars := 0, nPrinterBufferCharsOnLine := 0\<rparr>" "0x41"]
      printable_valid [OF p]
    by (auto split: sum.splits)
  have "buffered s1 = replicate (nPrinterBufferChars s1) 0x41" using s1 by simp
  from run_printable_cycle [OF s1(4,5) p _ _ this, of 2147483648] obtain s where
    s: "run s1 (map (TransferByteTo True True) (replicate 2147483648 0x41)) = Inr s"
      "bConnectedPrinter s" "bPrinterFile s"
      "nPrinterBufferChars s = (nPrinterBufferChars s1 - 1 + 2147483648) mod PRINTER_BUFFER_SIZE + 1"
      "buffered s = replicate (nPrinterBufferChars s) 0x41"
      "nPrinterBufferCharsOnLine s = nPrinterBufferCharsOnLine s1 + of_nat 2147483648"
    using s1(3) by auto
  have split: "replicate 2147483649 (0x41::byte) = [0x41] @ replicate 2147483648 0x41"
    by (simp flip: replicate_Suc)
  have "run Printer_initial (map (TransferByteTo True True) (replicate 2147483649 0x41)) = Inr s"
    unfolding split map_append run_append using s1(1) s(1) by simp
  moreover have "nPrinterBufferChars s = 1" using s(4) s1(3) by simp
  moreover have "nPrinterBufferCharsOnLine s = 2147483649" using s(6) c1 by simp
  ultimately show ?thesis using s by simp
qed

section \<open>The claims\<close>

text \<open>
  Claim C1 (as amended). When \<open>Printer_TransferByteTo\<close> handles a horizontal tab (0x09)
  with printing enabled, the printer connected and its file open, the buffer is written
  out before the spaces are stored if and only if \<open>nPrinterBufferChars \<ge> 2040\<close>
  (\<open>PRINTER_BUFFER_SIZE - PRINTER_TAB_SETTING\<close>): from 2040 on, the old buffer contents
  become one more \<open>fwrite\<close> block and the buffer then holds only the spaces; below 2040
  nothing is written and the spaces follow the old contents. The comparison in the code
  is \<open>>=\<close>, so the flush already happens at exactly 2040.

  The number of spaces is \<open>tab_spaces\<close> of the column counter. For a counter that is not
  negative that is \<open>8 - (column mod 8)\<close>, at most 8, so below 2040 the spaces always fit.
  For a counter that has wrapped to a negative value it can be up to 15; below 2040 the
  call then either stores them without a flush, or, when they do not fit, runs over the
  end of \<open>PrinterBuffer\<close>, again without a flush.
\<close>

theorem tab_flush_threshold:
  assumes "bConnectedPrinter s" and "bPrinterFile s"
  shows "(2040 \<le> nPrinterBufferChars s
            \<or> nPrinterBufferChars s + nat (tab_spaces (nPrinterBufferCharsOnLine s))
                 \<le> PRINTER_BUFFER_SIZE \<longrightarrow>
           (\<exists>s'. Printer_TransferByteTo True fopen_ok 9 s = Inr (True, s') \<and>
              (2040 \<le> nPrinterBufferChars s \<longrightarrow>
                 fwrites s' = fwrites s @ [buffered s] \<and>
                 buffered s' =
                   replicate (nat (tab_spaces (nPrinterBufferCharsOnLine s))) 0x20) \<and>
              (nPrinterBufferChars s < 2040 \<longrightarrow>
                 fwrites s' = fwrites s \<and>
                 buffered s' =
                   buffered s
                     @ replicate (nat (tab_spaces (nPrinterBufferCharsOnLine s))) 0x20))) \<and>
         (nPrinterBufferChars s < 2040 \<and>
            PRINTER_BUFFER_SIZE
              < nPrinterBufferChars s + nat (tab_spaces (nPrinterBufferCharsOnLine s)) \<longrightarrow>
            Printer_TransferByteTo True fopen_ok 9 s = Inl BufferOverrun) \<and>
         (0 \<le> sint (nPrinterBufferCharsOnLine s) \<longrightarrow>
            tab_spaces (nPrinterBufferCharsOnLine s)
              = 8 - sint (nPrinterBufferCharsOnLine s) mod 8 \<and>
            nat (tab_spaces (nPrinterBufferCharsOnLine s)) \<le> 8)"
proof -
  let ?k = "nat (tab_spaces (nPrinterBufferCharsOnLine s))"
  have flush: "\<exists>s'. Printer_TransferByteTo True fopen_ok 9 s = Inr (True, s') \<and>
      fwrites s' = fwrites s @ [buffered s] \<and> buffered s' = replicate ?k 0x20"
    if "2040 \<le> nPrinterBufferChars s"
  proof -
    from that have "PRINTER_BUFFER_SIZE - PRINTER_TAB_SETTING \<le> nPrinterBufferChars s" by simp
    from AddTab_flush [OF this assms(2)] show ?thesis
      using assms by (auto simp: Transfer_tab)
  qed
  have room: "\<exists>s'. Printer_TransferByteTo True fopen_ok 9 s = Inr (True, s') \<and>
      fwrites s' = fwrites s \<and> buffered s' = buffered s @ replicate ?k 0x20"
    if "nPrinterBufferChars s < 2040" "nPrinterBufferChars s + ?k \<le> PRINTER_BUFFER_SIZE"
  proof -
    from that(1) have "nPrinterBufferChars s < PRINTER_BUFFER_SIZE - PRINTER_TAB_SETTING"
      by simp
    from AddTab_room [OF this that(2)] show ?thesis
      using assms by (auto simp: Transfer_tab)
  qed
  have over: "Printer_TransferByteTo True fopen_ok 9 s = Inl BufferOverrun"
    if "nPrinterBufferChars s < 2040" "PRINTER_BUFFER_SIZE < nPrinterBufferChars s + ?k"
  proof -
    from that(1) have "nPrinterBufferChars s < PRINTER_BUFFER_SIZE - PRINTER_TAB_SETTING"
      by simp
    from AddTab_overrun [OF this that(2)] show ?thesis
      using assms by (simp add: Transfer_tab)
  qed
  have nonneg: "tab_spaces (nPrinterBufferCharsOnLine s)
      = 8 - sint (nPrinterBufferCharsOnLine s) mod 8 \<and> ?k \<le> 8"
    if "0 \<le> sint (nPrinterBufferCharsOnLine s)"
    using tab_spaces_nonneg [OF that] tab_spaces_nonneg_range [OF that] by linarith
  show ?thesis
  proof (cases "2040 \<le> nPrinterBufferChars s")
    case True
    with flush [OF True] nonneg show ?thesis by auto
  next
    case False
    then have lt: "nPrinterBufferChars s < 2040" by simp
    show ?thesis
    proof (cases "nPrinterBufferChars s + ?k \<le> PRINTER_BUFFER_SIZE")
      case True
      with room [OF lt True] lt nonneg show ?thesis by auto
    next
      case False
      then have "PRINTER_BUFFER_SIZE < nPrinterBufferChars s + ?k" by simp
      with over [OF lt this] lt False nonneg show ?thesis by auto
    qed
  qed
qed

theorem tab_flush_threshold_witness:
  "(\<exists>s'. Printer_TransferByteTo True True 9
           (Printer_initial\<lparr>bConnectedPrinter := True, bPrinterFile := True,
                            nPrinterBufferChars := 2040\<rparr>) = Inr (True, s') \<and>
         fwrites s' = [replicate 2040 0] \<and> buffered s' = replicate 8 0x20) \<and>
   (\<exists>s'. Printer_TransferByteTo True True 9
           (Printer_initial\<lparr>bConnectedPrinter := True, bPrinterFile := True,
                            nPrinterBufferChars := 2039\<rparr>) = Inr (True, s') \<and>
         fwrites s' = [] \<and> buffered s' = replicate 2039 0 @ replicate 8 0x20)"
  using tab_flush_threshold [of "Printer_initial\<lparr>bConnectedPrinter := True,
          bPrinterFile := True, nPrinterBufferChars := 2040\<rparr>" True]
        tab_flush_threshold [of "Printer_initial\<lparr>bConnectedPrinter := True,
          bPrinterFile := True, nPrinterBufferChars := 2039\<rparr>" True]
  by (simp add: buffered_zeros)

text \<open>
  Claim C1 as first stated (no flush at exactly 2040) fails. After 2040 bytes \<open>A\<close> handed
  over from the initial state, 2040 bytes are buffered and nothing has been written; the
  tab that follows makes the code write all 2040 of them out.
\<close>

theorem tab_flush_at_2040_counterexample:
  "\<not> isl (run Printer_initial (map (TransferByteTo True True) (replicate 2040 0x41))) \<and>
   nPrinterBufferChars
     (projr (run Printer_initial (map (TransferByteTo True True) (replicate 2040 0x41))))
     = 2040 \<and>
   fwrites (projr (run Printer_initial (map (TransferByteTo True True) (replicate 2040 0x41))))
     = [] \<and>
   \<not> isl (run Printer_initial
            (map (TransferByteTo True True) (replicate 2040 0x41)
               @ [TransferByteTo True True 9])) \<and>
   fwrites (projr (run Printer_initial
            (map (TransferByteTo True True) (replicate 2040 0x41)
               @ [TransferByteTo True True 9])))
     = [replicate 2040 0x41]"
proof -
  have "printable 0x41" by (simp add: printable_def)
  from run_printable_from_initial [OF _ _ this, of 2040] obtain s where
    s: "run Printer_initial (map (TransferByteTo True True) (replicate 2040 0x41)) = Inr s"
      "buffered s = replicate 2040 0x41" "fwrites s = []" "nPrinterBufferChars s = 2040"
      "bConnectedPrinter s" "bPrinterFile s"
    by auto
  have "PRINTER_BUFFER_SIZE - PRINTER_TAB_SETTING \<le> nPrinterBufferChars s"
    using s(4) by simp
  from AddTab_flush [OF this s(6)] obtain s' where
    "Printer_AddTabToInternalBuffer s = Inr s'" "fwrites s' = fwrites s @ [buffered s]"
    by auto
  then have "run s [TransferByteTo True True 9] = Inr s'"
    using s(5) by (simp add: Transfer_tab)
  then have "run Printer_initial
            (map (TransferByteTo True True) (replicate 2040 0x41)
               @ [TransferByteTo True True 9]) = Inr s'"
    using s(1) by (simp add: run_append)
  with s \<open>fwrites s' = fwrites s @ [buffered s]\<close> show ?thesis by simp
qed

text \<open>
  Claim C2 (as amended). Take a state in which \<open>Printer_TransferByteTo\<close> has just opened the
  connection (it was disconnected, with an idle count below \<open>PRINTER_IDLE_CLOSE\<close> = 200,
  and \<open>fopen\<close> succeeded), and call \<open>Printer_CheckIdleStatus\<close> repeatedly with no transfer
  in between. The idle count is not reset by connecting, and a check that finds bytes in
  the buffer writes them out and sets the count to zero. So:
  \<^item> when the byte was a valid one (it is in the buffer), the printer is still connected
    after any number of checks up to 200, and the 201st check disconnects it and leaves the
    idle count at 0;
  \<^item> when the byte was dropped (the buffer is empty), the printer is still connected after
    any number of checks below \<open>200 - nIdleCount\<close>, for the idle count the connection
    started with, and check number \<open>200 - nIdleCount\<close> disconnects it and leaves the idle
    count at 0: exactly 200 checks when the count started at 0.
\<close>

theorem idle_close_after_connect:
  assumes "\<not> bConnectedPrinter s" and "nIdleCount s < PRINTER_IDLE_CLOSE"
  shows "\<exists>s1. Printer_TransferByteTo True True b s = Inr (True, s1) \<and> bConnectedPrinter s1 \<and>
     (Printer_ValidByte b \<longrightarrow>
        (\<forall>k\<le>PRINTER_IDLE_CLOSE. bConnectedPrinter ((Printer_CheckIdleStatus ^^ k) s1)) \<and>
        \<not> bConnectedPrinter ((Printer_CheckIdleStatus ^^ (PRINTER_IDLE_CLOSE + 1)) s1) \<and>
        nIdleCount ((Printer_CheckIdleStatus ^^ (PRINTER_IDLE_CLOSE + 1)) s1) = 0) \<and>
     (\<not> Printer_ValidByte b \<longrightarrow>
        (\<forall>k<PRINTER_IDLE_CLOSE - nIdleCount s.
            bConnectedPrinter ((Printer_CheckIdleStatus ^^ k) s1)) \<and>
        \<not> bConnectedPrinter
            ((Printer_CheckIdleStatus ^^ (PRINTER_IDLE_CLOSE - nIdleCount s)) s1) \<and>
        nIdleCount ((Printer_CheckIdleStatus ^^ (PRINTER_IDLE_CLOSE - nIdleCount s)) s1) = 0)"
proof (cases "Printer_ValidByte b")
  case True
  from Transfer_connects_valid [OF assms(1) True] obtain s1 where
    s1: "Printer_TransferByteTo True True b s = Inr (True, s1)" "bConnectedPrinter s1"
      "bPrinterFile s1" "0 < nPrinterBufferChars s1"
    by blast
  from ticks_after_data [OF s1(3,4,2)] s1(1,2) True show ?thesis by blast
next
  case False
  let ?s1 = "s\<lparr>bPrinterFile := True, bConnectedPrinter := True,
                nPrinterBufferChars := 0, nPrinterBufferCharsOnLine := 0\<rparr>"
  have t: "Printer_TransferByteTo True True b s = Inr (True, ?s1)"
    using assms(1) False by (rule Transfer_connects_invalid)
  have "nPrinterBufferChars ?s1 = 0" "nIdleCount ?s1 < PRINTER_IDLE_CLOSE"
    "bConnectedPrinter ?s1" "nIdleCount ?s1 = nIdleCount s"
    using assms(2) by simp_all
  from ticks_without_data [OF this(1,2,3)] this(3,4) t False show ?thesis
    by (intro exI [of _ ?s1]) (simp only: simp_thms)
qed

theorem idle_close_after_connect_witness:
  "(\<exists>s1. Printer_TransferByteTo True True 0x41 Printer_initial = Inr (True, s1) \<and>
         bConnectedPrinter s1 \<and>
         bConnectedPrinter ((Printer_CheckIdleStatus ^^ 200) s1) \<and>
         \<not> bConnectedPrinter ((Printer_CheckIdleStatus ^^ 201) s1) \<and>
         nIdleCount ((Printer_CheckIdleStatus ^^ 201) s1) = 0) \<and>
   (\<exists>s1. Printer_TransferByteTo True True 0 (Printer_initial\<lparr>nIdleCount := 150\<rparr>)
           = Inr (True, s1) \<and>
         bConnectedPrinter s1 \<and>
         bConnectedPrinter ((Printer_CheckIdleStatus ^^ 49) s1) \<and>
         \<not> bConnectedPrinter ((Printer_CheckIdleStatus ^^ 50) s1) \<and>
         nIdleCount ((Printer_CheckIdleStatus ^^ 50) s1) = 0)"
proof -
  have v: "Printer_ValidByte 0x41" "\<not> Printer_ValidByte 0"
    by (simp_all add: Printer_ValidByte_def)
  from idle_close_after_connect [of Printer_initial "0x41"] v(1)
  obtain s1 where "Printer_TransferByteTo True True 0x41 Printer_initial = Inr (True, s1)"
    "bConnectedPrinter s1"
    "\<forall>k\<le>PRINTER_IDLE_CLOSE. bConnectedPrinter ((Printer_CheckIdleStatus ^^ k) s1)"
    "\<not> bConnectedPrinter ((Printer_CheckIdleStatus ^^ (PRINTER_IDLE_CLOSE + 1)) s1)"
    "nIdleCount ((Printer_CheckIdleStatus ^^ (PRINTER_IDLE_CLOSE + 1)) s1) = 0"
    by auto
  then have a: "\<exists>s1. Printer_TransferByteTo True True 0x41 Printer_initial = Inr (True, s1) \<and>
         bConnectedPrinter s1 \<and>
         bConnectedPrinter ((Printer_CheckIdleStatus ^^ 200) s1) \<and>
         \<not> bConnectedPrinter ((Printer_CheckIdleStatus ^^ 201) s1) \<and>
         nIdleCount ((Printer_CheckIdleStatus ^^ 201) s1) = 0"
    by (intro exI [of _ s1]) simp
  from idle_close_after_connect [of "Printer_initial\<lparr>nIdleCount := 150\<rparr>" 0] v(2)
  obtain s2 where "Printer_TransferByteTo True True 0 (Printer_initial\<lparr>nIdleCount := 150\<rparr>)
           = Inr (True, s2)"
    "bConnectedPrinter s2"
    "\<forall>k<50. bConnectedPrinter ((Printer_CheckIdleStatus ^^ k) s2)"
    "\<not> bConnectedPrinter ((Printer_CheckIdleStatus ^^ 50) s2)"
    "nIdleCount ((Printer_CheckIdleStatus ^^ 50) s2) = 0"
    by auto
  then have "\<exists>s1. Printer_TransferByteTo True True 0 (Printer_initial\<lparr>nIdleCount := 150\<rparr>)
           = Inr (True, s1) \<and>
         bConnectedPrinter s1 \<and>
         bConnectedPrinter ((Printer_CheckIdleStatus ^^ 49) s1) \<and>
         \<not> bConnectedPrinter ((Printer_CheckIdleStatus ^^ 50) s1) \<and>
         nIdleCount ((Printer_CheckIdleStatus ^^ 50) s1) = 0"
    by (intro exI [of _ s2]) simp
  with a show ?thesis by blast
qed

text \<open>
  Claim C2 as first stated (200 checks close a connection that has just been opened, fewer
  leave it open) fails both ways. After the byte \<open>A\<close> opens the connection from the initial
  state, the printer is still connected after 200 checks. And after 150 checks while
  disconnected, a connection opened by the dropped byte 0x00 is closed again by only 50
  checks.
\<close>

theorem idle_close_200_counterexample:
  "\<not> isl (Printer_TransferByteTo True True 0x41 Printer_initial) \<and>
   bConnectedPrinter ((Printer_CheckIdleStatus ^^ 200)
     (snd (projr (Printer_TransferByteTo True True 0x41 Printer_initial)))) \<and>
   \<not> bConnectedPrinter ((Printer_CheckIdleStatus ^^ 150) Printer_initial) \<and>
   \<not> isl (Printer_TransferByteTo True True 0 ((Printer_CheckIdleStatus ^^ 150) Printer_initial)) \<and>
   bConnectedPrinter
     (snd (projr (Printer_TransferByteTo True True 0
        ((Printer_CheckIdleStatus ^^ 150) Printer_initial)))) \<and>
   \<not> bConnectedPrinter ((Printer_CheckIdleStatus ^^ 50)
     (snd (projr (Printer_TransferByteTo True True 0
        ((Printer_CheckIdleStatus ^^ 150) Printer_initial)))))"
proof -
  have v: "Printer_ValidByte 0x41" "\<not> Printer_ValidByte 0"
    by (simp_all add: Printer_ValidByte_def)
  from Transfer_connects_valid [OF initial_fields(3) v(1)] obtain s1 where
    s1: "Printer_TransferByteTo True True 0x41 Printer_initial = Inr (True, s1)"
      "bConnectedPrinter s1" "bPrinterFile s1" "0 < nPrinterBufferChars s1"
    by blast
  from ticks_after_data(1) [OF s1(3,4,2)]
  have "bConnectedPrinter ((Printer_CheckIdleStatus ^^ 200) s1)" by simp
  with s1(1) have first: "\<not> isl (Printer_TransferByteTo True True 0x41 Printer_initial) \<and>
     bConnectedPrinter ((Printer_CheckIdleStatus ^^ 200)
       (snd (projr (Printer_TransferByteTo True True 0x41 Printer_initial))))"
    by simp
  let ?d = "Printer_initial\<lparr>nIdleCount := 150\<rparr>"
  let ?c = "?d\<lparr>bPrinterFile := True, bConnectedPrinter := True,
               nPrinterBufferChars := 0, nPrinterBufferCharsOnLine := 0\<rparr>"
  have d: "(Printer_CheckIdleStatus ^^ 150) Printer_initial = ?d"
    using ticks_idle [of Printer_initial 150] by simp
  have t: "Printer_TransferByteTo True True 0 ?d = Inr (True, ?c)"
    by (rule Transfer_connects_invalid) (simp_all add: v)
  have "\<not> bConnectedPrinter
          ((Printer_CheckIdleStatus ^^ (PRINTER_IDLE_CLOSE - nIdleCount ?c)) ?c)"
    by (rule ticks_without_data(2)) simp_all
  then have "\<not> bConnectedPrinter ((Printer_CheckIdleStatus ^^ 50) ?c)" by simp
  with first show ?thesis by (simp add: d t)
qed

text \<open>
  Between two carriage returns the column counter is not negative as long as fewer than
  \<open>2^31\<close> characters are printed, and then a tab handled while connected (printing enabled,
  file open) stores exactly \<open>8 - (column mod 8)\<close> spaces, a number from 1 to 8, after the old
  buffer contents (or alone, when the buffer was flushed first), and adds that number to
  the column counter.
\<close>

lemma tab_nonneg_column:
  assumes "bConnectedPrinter s" and "bPrinterFile s"
    and "0 \<le> sint (nPrinterBufferCharsOnLine s)"
  shows "\<exists>s'. Printer_TransferByteTo True fopen_ok 9 s = Inr (True, s') \<and>
           1 \<le> 8 - sint (nPrinterBufferCharsOnLine s) mod 8 \<and>
           8 - sint (nPrinterBufferCharsOnLine s) mod 8 \<le> 8 \<and>
           buffered s' =
             (if 2040 \<le> nPrinterBufferChars s then [] else buffered s)
               @ replicate (nat (8 - sint (nPrinterBufferCharsOnLine s) mod 8)) 0x20 \<and>
           nPrinterBufferChars s' =
             (if 2040 \<le> nPrinterBufferChars s then 0 else nPrinterBufferChars s)
               + nat (8 - sint (nPrinterBufferCharsOnLine s) mod 8) \<and>
           nPrinterBufferCharsOnLine s' =
             nPrinterBufferCharsOnLine s
               + of_nat (nat (8 - sint (nPrinterBufferCharsOnLine s) mod 8))"
proof -
  let ?c = "nPrinterBufferCharsOnLine s"
  have k: "tab_spaces ?c = 8 - sint ?c mod 8" "1 \<le> tab_spaces ?c" "tab_spaces ?c \<le> 8"
    using tab_spaces_nonneg [OF assms(3)] tab_spaces_nonneg_range [OF assms(3)] by simp_all
  show ?thesis
  proof (cases "nPrinterBufferChars s < 2040")
    case True
    then have lt: "nPrinterBufferChars s < PRINTER_BUFFER_SIZE - PRINTER_TAB_SETTING" by simp
    have "nPrinterBufferChars s + nat (tab_spaces ?c) \<le> PRINTER_BUFFER_SIZE"
      using True k(3) by simp
    from AddTab_room [OF lt this] obtain s' where
      "Printer_AddTabToInternalBuffer s = Inr s'"
      "buffered s' = buffered s @ replicate (nat (tab_spaces ?c)) 0x20"
      "nPrinterBufferChars s' = nPrinterBufferChars s + nat (tab_spaces ?c)"
      "nPrinterBufferCharsOnLine s' = ?c + of_nat (nat (tab_spaces ?c))"
      by blast
    then show ?thesis
      using True assms(1) k by (simp add: Transfer_tab)
  next
    case False
    then have "PRINTER_BUFFER_SIZE - PRINTER_TAB_SETTING \<le> nPrinterBufferChars s" by simp
    from AddTab_flush [OF this assms(2)] obtain s' where
      "Printer_AddTabToInternalBuffer s = Inr s'"
      "buffered s' = replicate (nat (tab_spaces ?c)) 0x20"
      "nPrinterBufferChars s' = nat (tab_spaces ?c)"
      "nPrinterBufferCharsOnLine s' = ?c + of_nat (nat (tab_spaces ?c))"
      by blast
    then show ?thesis
      using False assms(1) k by (simp add: Transfer_tab)
  qed
qed

text \<open>
  Claim C3 (a defect of the code). The claim asks for 1 to 8 spaces, \<open>8 - (column mod 8)\<close>,
  at every value of the column counter. The counter is a C \<open>int\<close> that nothing resets but a
  carriage return. After \<open>2^31 + 1\<close> bytes \<open>A\<close> handed over from the initial state it has
  wrapped to \<open>-2147483647\<close>, C's \<open>%\<close> gives \<open>-7\<close>, and the tab that follows stores 15
  spaces after the one byte in the buffer.
\<close>

theorem tab_after_column_wrap:
  "\<exists>s. run Printer_initial (map (TransferByteTo True True) (replicate 2147483649 0x41)) = Inr s \<and>
       sint (nPrinterBufferCharsOnLine s) = - 2147483647 \<and>
       tab_spaces (nPrinterBufferCharsOnLine s) = 15 \<and>
       buffered s = [0x41] \<and>
       (\<exists>s'. Printer_TransferByteTo True True 9 s = Inr (True, s') \<and>
             buffered s' = 0x41 # replicate 15 0x20 \<and>
             nPrinterBufferChars s' = 16 \<and>
             sint (nPrinterBufferCharsOnLine s') = - 2147483632)"
proof -
  from column_wrapped obtain s where
    s: "run Printer_initial (map (TransferByteTo True True) (replicate 2147483649 0x41)) = Inr s"
      "bConnectedPrinter s" "bPrinterFile s" "nPrinterBufferChars s = 1"
      "buffered s = [0x41]" "nPrinterBufferCharsOnLine s = 2147483649"
    by blast
  have k: "tab_spaces (nPrinterBufferCharsOnLine s) = 15"
    unfolding s(6) by (simp add: tab_spaces_def smod_int_alt_def)
  have "nPrinterBufferChars s < PRINTER_BUFFER_SIZE - PRINTER_TAB_SETTING"
    "nPrinterBufferChars s + nat (tab_spaces (nPrinterBufferCharsOnLine s)) \<le> PRINTER_BUFFER_SIZE"
    using s(4) k by simp_all
  from AddTab_room [OF this] obtain s' where
    "Printer_AddTabToInternalBuffer s = Inr s'"
    "buffered s' = buffered s @ replicate (nat (tab_spaces (nPrinterBufferCharsOnLine s))) 0x20"
    "nPrinterBufferChars s' =
       nPrinterBufferChars s + nat (tab_spaces (nPrinterBufferCharsOnLine s))"
    "nPrinterBufferCharsOnLine s' =
       nPrinterBufferCharsOnLine s + of_nat (nat (tab_spaces (nPrinterBufferCharsOnLine s)))"
    by blast
  then have "Printer_TransferByteTo True True 9 s = Inr (True, s') \<and>
             buffered s' = 0x41 # replicate 15 0x20 \<and>
             nPrinterBufferChars s' = 16 \<and>
             sint (nPrinterBufferCharsOnLine s') = - 2147483632"
    using s(2,4,5,6) k by (simp add: Transfer_tab)
  with s k show ?thesis by (intro exI [of _ s]) auto
qed

text \<open>
  Claim C4 (a defect of the code). The claim is that the buffer length never passes 2048
  because every store that would not fit comes after a flush. The code guards the tab with
  \<open>nPrinterBufferChars >= 2040\<close>, which is enough for 8 spaces; with a column counter that has
  wrapped to a negative value the tab stores up to 15. After \<open>2^31 + 1\<close> bytes \<open>A\<close> and 2038
  line feeds from the initial state, 2039 bytes are buffered and the counter is
  \<open>-2147483647\<close>; the tab that follows is not flushed and stores past the end of
  \<open>PrinterBuffer\<close>. (Runs of fewer than \<open>2^28\<close> calls never get there: lemma
  \<open>run_from_initial_returns\<close>.)
\<close>

theorem buffer_overrun_after_column_wrap:
  "run Printer_initial
     (map (TransferByteTo True True) (replicate 2147483649 0x41)
        @ map (TransferByteTo True True) (replicate 2038 0x0a)
        @ [TransferByteTo True True 9])
     = Inl BufferOverrun"
proof -
  from column_wrapped obtain s where
    s: "run Printer_initial (map (TransferByteTo True True) (replicate 2147483649 0x41)) = Inr s"
      "bConnectedPrinter s" "bPrinterFile s" "nPrinterBufferChars s = 1"
      "nPrinterBufferCharsOnLine s = 2147483649"
    by blast
  have "nPrinterBufferChars s + 2038 \<le> PRINTER_BUFFER_SIZE" using s(4) by simp
  from run_linefeeds_room [OF s(2) this] obtain s1 where
    s1: "run s (map (TransferByteTo True True) (replicate 2038 0x0a)) = Inr s1"
      "bConnectedPrinter s1" "nPrinterBufferChars s1 = nPrinterBufferChars s + 2038"
      "nPrinterBufferCharsOnLine s1 = nPrinterBufferCharsOnLine s"
    by blast
  have k: "tab_spaces (nPrinterBufferCharsOnLine s1) = 15"
    unfolding s1(4) s(5) by (simp add: tab_spaces_def smod_int_alt_def)
  have "nPrinterBufferChars s1 < PRINTER_BUFFER_SIZE - PRINTER_TAB_SETTING"
    "PRINTER_BUFFER_SIZE
       < nPrinterBufferChars s1 + nat (tab_spaces (nPrinterBufferCharsOnLine s1))"
    using s1(3) s(4) k by simp_all
  from AddTab_overrun [OF this]
  have "Printer_TransferByteTo True True 9 s1 = Inl BufferOverrun"
    using s1(2) by (simp add: Transfer_tab)
  then have "run s1 [TransferByteTo True True 9] = Inl BufferOverrun" by simp
  with s(1) s1(1) show ?thesis by (simp add: run_append)
qed

text \<open>
  Claim C5. From a connected state with an empty buffer (file open), 2049 printable bytes
  handed over one by one cause exactly one \<open>fwrite\<close>, and it comes with the 2049th byte:
  after any first \<open>k \<le> 2048\<close> of them nothing has been written and the buffer holds those
  \<open>k\<close> bytes; after all of them the file has received one block, the first 2048 bytes, and
  the buffer holds only the last byte.
\<close>

theorem buffer_full_flush:
  assumes "bConnectedPrinter s" and "bPrinterFile s" and "nPrinterBufferChars s = 0"
    and "length bs = PRINTER_BUFFER_SIZE + 1" and "\<forall>b\<in>set bs. printable b"
  shows "(\<forall>k\<le>PRINTER_BUFFER_SIZE.
            \<exists>s'. run s (map (TransferByteTo True fopen_ok) (take k bs)) = Inr s' \<and>
                 fwrites s' = fwrites s \<and> buffered s' = take k bs) \<and>
         (\<exists>s'. run s (map (TransferByteTo True fopen_ok) bs) = Inr s' \<and>
               fwrites s' = fwrites s @ [take PRINTER_BUFFER_SIZE bs] \<and>
               buffered s' = [bs ! PRINTER_BUFFER_SIZE])"
proof -
  have prefix: "\<exists>s'. run s (map (TransferByteTo True fopen_ok) (take k bs)) = Inr s' \<and>
           buffered s' = take k bs \<and> fwrites s' = fwrites s \<and>
           nPrinterBufferChars s' = k \<and> bConnectedPrinter s' \<and> bPrinterFile s'"
    if "k \<le> PRINTER_BUFFER_SIZE" for k
  proof -
    have "\<forall>b\<in>set (take k bs). printable b"
      using assms(5) by (meson in_set_takeD)
    moreover have "nPrinterBufferChars s + length (take k bs) \<le> PRINTER_BUFFER_SIZE"
      using that assms(3,4) by simp
    ultimately show ?thesis
      using run_printable_room [OF assms(1), of "take k bs" fopen_ok] that assms(2,3,4)
      by (simp add: buffered_empty min_def)
  qed
  from prefix [of PRINTER_BUFFER_SIZE] obtain s1 where
    s1: "run s (map (TransferByteTo True fopen_ok) (take PRINTER_BUFFER_SIZE bs)) = Inr s1"
      "buffered s1 = take PRINTER_BUFFER_SIZE bs" "fwrites s1 = fwrites s"
      "nPrinterBufferChars s1 = PRINTER_BUFFER_SIZE" "bConnectedPrinter s1" "bPrinterFile s1"
    by blast
  let ?b = "bs ! PRINTER_BUFFER_SIZE"
  have split: "bs = take PRINTER_BUFFER_SIZE bs @ [?b]"
    using assms(4) take_Suc_conv_app_nth [of PRINTER_BUFFER_SIZE bs] by simp
  have pb: "printable ?b" using assms(4,5) by simp
  from AddByte_full [OF s1(4,6), of ?b] obtain s2 where
    s2: "Printer_AddByteToInternalBuffer ?b s1 = Inr s2" "buffered s2 = [?b]"
      "fwrites s2 = fwrites s1 @ [buffered s1]"
    by blast
  have "Printer_TransferByteTo True fopen_ok ?b s1 = Inr (True, s2)"
    using s2(1) printable_valid [OF pb]
      Transfer_byte [OF s1(5) printable_valid(1,2) [OF pb], of fopen_ok]
    by simp
  then have "run s1 [TransferByteTo True fopen_ok ?b] = Inr s2" by simp
  then have "run s (map (TransferByteTo True fopen_ok) (take PRINTER_BUFFER_SIZE bs @ [?b]))
               = Inr s2"
    using s1(1) by (simp add: run_append)
  with split have "run s (map (TransferByteTo True fopen_ok) bs) = Inr s2" by simp
  with s2 s1 prefix show ?thesis by auto
qed

theorem buffer_full_flush_witness:
  "(\<exists>s'. run (Printer_initial\<lparr>bConnectedPrinter := True, bPrinterFile := True\<rparr>)
             (map (TransferByteTo True True) (replicate 2048 0x41)) = Inr s' \<and>
         fwrites s' = [] \<and> buffered s' = replicate 2048 0x41) \<and>
   (\<exists>s'. run (Printer_initial\<lparr>bConnectedPrinter := True, bPrinterFile := True\<rparr>)
             (map (TransferByteTo True True) (replicate 2049 0x41)) = Inr s' \<and>
         fwrites s' = [replicate 2048 0x41] \<and> buffered s' = [0x41])"
proof -
  have "\<forall>b\<in>set (replicate 2049 (0x41::byte)). printable b"
    by (simp add: printable_def)
  from buffer_full_flush [of "Printer_initial\<lparr>bConnectedPrinter := True,
          bPrinterFile := True\<rparr>" "replicate 2049 0x41" True, OF _ _ _ _ this]
  show ?thesis by simp
qed

text \<open>
  Claim C6. For a carriage return, a line feed or a printable byte (0x20 to 0x7E), handled
  while connected (printing enabled, file open, at most 2048 bytes buffered), the call
  returns \<open>TRUE\<close> and stores exactly that byte: after the old contents when there is room,
  and alone after one \<open>fwrite\<close> of the whole buffer when it was full. A carriage return
  sets the column counter to zero, a printable byte adds one to it (in the arithmetic of
  the C \<open>int\<close>: at \<open>INT_MAX\<close> the increment gives \<open>INT_MIN\<close>), a line feed leaves it.
\<close>

theorem valid_byte_appended:
  assumes "bConnectedPrinter s" and "bPrinterFile s"
    and "nPrinterBufferChars s \<le> PRINTER_BUFFER_SIZE"
    and "b = 0x0d \<or> b = 0x0a \<or> (0x20 \<le> b \<and> b \<le> 0x7e)"
  shows "\<exists>s'. Printer_TransferByteTo True fopen_ok b s = Inr (True, s') \<and>
           (nPrinterBufferChars s < PRINTER_BUFFER_SIZE \<longrightarrow>
              buffered s' = buffered s @ [b] \<and> fwrites s' = fwrites s \<and>
              nPrinterBufferChars s' = nPrinterBufferChars s + 1) \<and>
           (nPrinterBufferChars s = PRINTER_BUFFER_SIZE \<longrightarrow>
              buffered s' = [b] \<and> fwrites s' = fwrites s @ [buffered s] \<and>
              nPrinterBufferChars s' = 1) \<and>
           nPrinterBufferCharsOnLine s' =
             (if b = 0x0d then 0
              else if b = 0x0a then nPrinterBufferCharsOnLine s
              else nPrinterBufferCharsOnLine s + 1) \<and>
           bConnectedPrinter s'"
proof -
  from assms(4) have v: "Printer_ValidByte b" and n9: "b \<noteq> 9"
    using printable_not_control [of b] by (auto simp: ValidByte_iff)
  note t = Transfer_byte [OF assms(1) v n9]
  show ?thesis
  proof (cases "nPrinterBufferChars s < PRINTER_BUFFER_SIZE")
    case True
    from AddByte_room [OF True, of b] obtain s2 where
      "Printer_AddByteToInternalBuffer b s = Inr s2" "buffered s2 = buffered s @ [b]"
      "nPrinterBufferChars s2 = nPrinterBufferChars s + 1"
      "nPrinterBufferCharsOnLine s2 =
         (if b = 0xd \<or> b = 0xa then nPrinterBufferCharsOnLine s
          else nPrinterBufferCharsOnLine s + 1)"
      "bConnectedPrinter s2 = bConnectedPrinter s" "fwrites s2 = fwrites s"
      by blast
    then show ?thesis using True assms(1) by (simp add: t buffered_def)
  next
    case False
    with assms(3) have full: "nPrinterBufferChars s = PRINTER_BUFFER_SIZE" by simp
    from AddByte_full [OF full assms(2), of b] obtain s2 where
      "Printer_AddByteToInternalBuffer b s = Inr s2" "buffered s2 = [b]"
      "nPrinterBufferChars s2 = 1"
      "nPrinterBufferCharsOnLine s2 =
         (if b = 0xd \<or> b = 0xa then nPrinterBufferCharsOnLine s
          else nPrinterBufferCharsOnLine s + 1)"
      "bConnectedPrinter s2 = bConnectedPrinter s" "fwrites s2 = fwrites s @ [buffered s]"
      by blast
    then show ?thesis using full assms(1) by (simp add: t buffered_def)
  qed
qed

theorem valid_byte_appended_witness:
  "(\<exists>s'. Printer_TransferByteTo True True 0x41
           (Printer_initial\<lparr>bConnectedPrinter := True, bPrinterFile := True,
                            nPrinterBufferCharsOnLine := 5\<rparr>) = Inr (True, s') \<and>
         buffered s' = [0x41] \<and> fwrites s' = [] \<and> nPrinterBufferChars s' = 1 \<and>
         nPrinterBufferCharsOnLine s' = 6 \<and> bConnectedPrinter s') \<and>
   (\<exists>s'. Printer_TransferByteTo True True 0x0d
           (Printer_initial\<lparr>bConnectedPrinter := True, bPrinterFile := True,
                            nPrinterBufferChars := 2048, nPrinterBufferCharsOnLine := 5\<rparr>)
             = Inr (True, s') \<and>
         buffered s' = [0x0d] \<and> fwrites s' = [replicate 2048 0] \<and>
         nPrinterBufferChars s' = 1 \<and> nPrinterBufferCharsOnLine s' = 0 \<and>
         bConnectedPrinter s') \<and>
   (\<exists>s'. Printer_TransferByteTo True True 0x41
           (Printer_initial\<lparr>bConnectedPrinter := True, bPrinterFile := True,
                            nPrinterBufferCharsOnLine := 2147483647\<rparr>) = Inr (True, s') \<and>
         buffered s' = [0x41] \<and> fwrites s' = [] \<and> nPrinterBufferChars s' = 1 \<and>
         nPrinterBufferCharsOnLine s' = 2147483648 \<and> bConnectedPrinter s') \<and>
   sint (2147483647 :: 32 word) = 2147483647 \<and> sint (2147483648 :: 32 word) = - 2147483648"
  using valid_byte_appended [of "Printer_initial\<lparr>bConnectedPrinter := True,
          bPrinterFile := True, nPrinterBufferCharsOnLine := 2147483647\<rparr>" "0x41" True]
        valid_byte_appended [of "Printer_initial\<lparr>bConnectedPrinter := True,
          bPrinterFile := True, nPrinterBufferCharsOnLine := 5\<rparr>" "0x41" True]
        valid_byte_appended [of "Printer_initial\<lparr>bConnectedPrinter := True,
          bPrinterFile := True, nPrinterBufferChars := 2048,
          nPrinterBufferCharsOnLine := 5\<rparr>" "0x0d" True]
  by (simp add: buffered_empty buffered_zeros)

text \<open>
  Claim C7. For every byte that is neither 0x0D, 0x0A, 0x09 nor in 0x20 to 0x7E, the call,
  made while connected with printing enabled, returns \<open>TRUE\<close> and leaves the whole state
  (buffer, buffer length, column counter and all the rest) as it was.
\<close>

theorem invalid_byte_dropped:
  assumes "bConnectedPrinter s"
    and "b \<noteq> 0x0d" and "b \<noteq> 0x0a" and "b \<noteq> 0x09" and "\<not> (0x20 \<le> b \<and> b \<le> 0x7e)"
  shows "Printer_TransferByteTo True fopen_ok b s = Inr (True, s)"
  using assms by (simp add: Transfer_invalid ValidByte_iff)

theorem invalid_byte_dropped_witness:
  "Printer_TransferByteTo True True 0x07
     (Printer_initial\<lparr>bConnectedPrinter := True, bPrinterFile := True,
                      nPrinterBufferChars := 3\<rparr>)
     = Inr (True, Printer_initial\<lparr>bConnectedPrinter := True, bPrinterFile := True,
                      nPrinterBufferChars := 3\<rparr>) \<and>
   Printer_TransferByteTo True True 0x80
     (Printer_initial\<lparr>bConnectedPrinter := True, bPrinterFile := True\<rparr>)
     = Inr (True, Printer_initial\<lparr>bConnectedPrinter := True, bPrinterFile := True\<rparr>)"
  using invalid_byte_dropped [of "Printer_initial\<lparr>bConnectedPrinter := True,
          bPrinterFile := True, nPrinterBufferChars := 3\<rparr>" "0x07" True]
        invalid_byte_dropped [of "Printer_initial\<lparr>bConnectedPrinter := True,
          bPrinterFile := True\<rparr>" "0x80" True]
  by simp

text \<open>
  Claim C8. \<open>Printer_CloseAllConnections\<close> is idempotent: in every state, a second call
  right after the first changes nothing at all, so the connected flag, the buffer length,
  the column counter and the open file are the same after two calls as after one. In a
  disconnected state (no connection and, as the data model has it, no open file) already
  the first call changes nothing.
\<close>

theorem close_idempotent:
  "Printer_CloseAllConnections (Printer_CloseAllConnections s) = Printer_CloseAllConnections s
   \<and> (\<not> bConnectedPrinter s \<and> \<not> bPrinterFile s \<longrightarrow> Printer_CloseAllConnections s = s)"
  by (simp add: CloseAllConnections_eq)

theorem close_idempotent_witness:
  "Printer_CloseAllConnections (Printer_CloseAllConnections
      (Printer_initial\<lparr>bConnectedPrinter := True, bPrinterFile := True,
                       nPrinterBufferChars := 2\<rparr>))
     = Printer_initial\<lparr>fwrites := [replicate 2 0]\<rparr> \<and>
   Printer_CloseAllConnections
      (Printer_initial\<lparr>bConnectedPrinter := True, bPrinterFile := True,
                       nPrinterBufferChars := 2\<rparr>)
     = Printer_initial\<lparr>fwrites := [replicate 2 0]\<rparr> \<and>
   Printer_CloseAllConnections Printer_initial = Printer_initial"
  using close_idempotent [of "Printer_initial\<lparr>bConnectedPrinter := True,
          bPrinterFile := True, nPrinterBufferChars := 2\<rparr>"]
        close_idempotent [of Printer_initial]
  by (simp add: CloseAllConnections_eq buffered_zeros)

text \<open>
  Claim C9. \<open>Printer_TransferByteTo\<close> never changes \<open>nIdleCount\<close>: whatever the byte, the
  flags and the state, the state it returns has the idle count it was called with, and in
  every consistent state it does return (but for a tab met with a column counter that has
  wrapped to a negative value, which can run over the buffer). That holds for the call that
  opens the
  connection too, so a count that built up while disconnected is still there once
  connected. The flush, the close and the two resets leave \<open>nIdleCount\<close> alone as well;
  only \<open>Printer_CheckIdleStatus\<close> assigns to it.
\<close>

theorem idle_count_frame:
  "(\<forall>r s'. Printer_TransferByteTo en fopen_ok b s = Inr (r, s') \<longrightarrow>
            nIdleCount s' = nIdleCount s) \<and>
   (consistent s \<and> (b = 9 \<longrightarrow> 0 \<le> sint (nPrinterBufferCharsOnLine s)) \<longrightarrow>
      (\<exists>r s'. Printer_TransferByteTo en fopen_ok b s = Inr (r, s'))) \<and>
   (\<not> bConnectedPrinter s \<longrightarrow>
      (\<exists>s'. Printer_TransferByteTo True True b s = Inr (True, s') \<and>
            bConnectedPrinter s' \<and> nIdleCount s' = nIdleCount s)) \<and>
   nIdleCount (snd (Printer_EmptyInternalBuffer s)) = nIdleCount s \<and>
   nIdleCount (Printer_CloseAllConnections s) = nIdleCount s \<and>
   nIdleCount (Printer_ResetInternalBuffer s) = nIdleCount s \<and>
   nIdleCount (Printer_ResetCharsOnLine s) = nIdleCount s"
proof -
  have "\<forall>r s'. Printer_TransferByteTo en fopen_ok b s = Inr (r, s') \<longrightarrow>
            nIdleCount s' = nIdleCount s"
    by (blast dest: Transfer_idle)
  moreover have "consistent s \<and> (b = 9 \<longrightarrow> 0 \<le> sint (nPrinterBufferCharsOnLine s)) \<longrightarrow>
      (\<exists>r s'. Printer_TransferByteTo en fopen_ok b s = Inr (r, s'))"
    using Transfer_consistent [of s b en fopen_ok] by blast
  moreover have "\<not> bConnectedPrinter s \<longrightarrow>
      (\<exists>s'. Printer_TransferByteTo True True b s = Inr (True, s') \<and>
            bConnectedPrinter s' \<and> nIdleCount s' = nIdleCount s)"
    using Transfer_connects [of s b] by blast
  ultimately show ?thesis
    by (simp add: EmptyInternalBuffer_frame CloseAllConnections_eq
        Printer_ResetInternalBuffer_def Printer_ResetCharsOnLine_def)
qed

theorem idle_count_frame_witness:
  "\<exists>s'. Printer_TransferByteTo True True 0x41 (Printer_initial\<lparr>nIdleCount := 150\<rparr>)
          = Inr (True, s') \<and>
        bConnectedPrinter s' \<and> nIdleCount s' = 150"
  using idle_count_frame [of True True "0x41" "Printer_initial\<lparr>nIdleCount := 150\<rparr>"]
  by simp

text \<open>
  Claim C10. In every state reached from the initial state by those calls, a printer that
  is not connected has an empty buffer: \<open>bConnectedPrinter = FALSE\<close> implies
  \<open>nPrinterBufferChars = 0\<close>. A run reaches a state unless it stores outside
  \<open>PrinterBuffer\<close>, and every run of fewer than \<open>2^28\<close> calls does reach one.
\<close>

theorem disconnected_buffer_empty:
  "(\<forall>s. run Printer_initial ops = Inr s \<longrightarrow>
        (\<not> bConnectedPrinter s \<longrightarrow> nPrinterBufferChars s = 0)) \<and>
   (length ops < 2 ^ 28 \<longrightarrow> (\<exists>s. run Printer_initial ops = Inr s))"
proof -
  have "\<not> bConnectedPrinter s \<longrightarrow> nPrinterBufferChars s = 0"
    if "run Printer_initial ops = Inr s" for s
    using run_keeps_consistent [OF initial_consistent that] by (auto simp: consistent_def)
  moreover have "\<exists>s. run Printer_initial ops = Inr s" if "length ops < 2 ^ 28"
    using run_from_initial_returns [OF that] by blast
  ultimately show ?thesis by blast
qed

theorem disconnected_buffer_empty_witness:
  "\<exists>s. run Printer_initial [TransferByteTo True True 0x41, CloseAllConnections] = Inr s \<and>
        \<not> bConnectedPrinter s \<and> nPrinterBufferChars s = 0"
proof -
  have "\<exists>s. run Printer_initial [TransferByteTo True True 0x41, CloseAllConnections] = Inr s \<and>
          \<not> bConnectedPrinter s"
    using Transfer_connects [of Printer_initial "0x41"]
    by (auto simp: CloseAllConnections_eq)
  with disconnected_buffer_empty [of "[TransferByteTo True True 0x41, CloseAllConnections]"]
  show ?thesis by auto
qed

end
